theory Spec2Isabelle
  imports Complex_Main "HOL-Library.AList" "HOL-Library.Log_Nat"
begin

section \<open>Numbers and typed arrays\<close>

text \<open>
  The program is TypeScript running on the canvas API. Its numbers are IEEE 754 doubles;
  the embedding uses \<^typ>\<open>real\<close> (and \<^typ>\<open>int\<close>, \<^typ>\<open>nat\<close> where the code only
  ever holds integers, which doubles represent exactly far beyond the sizes met here).
  Sums, differences and products of such integers, halves and quarters, and the square
  root of a perfect square are exact in doubles as well. Where the rounding of a double
  operation can decide what the code does (the hue and the grey of the colour splash, the
  size of the pixelation canvas) every operation of the source is the exact operation
  followed by \<open>fl\<close>, the rounding to the nearest double defined below. Where the code
  takes other quotients, roots and powers (the feather weights, gamma, the noise) the
  embedding is the exact arithmetic that the doubles approximate, and the concrete inputs
  of those examples are chosen so that their outcome does not hinge on a rounding.
  Pixel planes are typed arrays of bytes: \<open>ImageData.data\<close> is a \<open>Uint8ClampedArray\<close>
  with four bytes (R, G, B, A) per pixel in raster order, masks are \<open>Uint8Array\<close>s.
  Both are lists of naturals below 256 here. A typed array never changes its length, a
  store beyond its end is ignored (as \<open>xs[i := v]\<close> is), and a store converts the
  number: a clamped array clamps to 0..255 and rounds to nearest, ties to even; a plain
  \<open>Uint8Array\<close> truncates towards zero and reduces modulo 256.
\<close>

type_synonym bytes = "nat list"

definition toUint8Clamped :: "real \<Rightarrow> nat" where
  "toUint8Clamped x =
     (if x \<le> 0 then 0
      else if 255 \<le> x then 255
      else (let f = \<lfloor>x\<rfloor>; r = x - of_int f
            in nat (if r < 1 / 2 then f
                    else if 1 / 2 < r then f + 1
                    else if even f then f else f + 1)))"

definition toUint8 :: "real \<Rightarrow> nat" where
  "toUint8 x = nat ((if 0 \<le> x then \<lfloor>x\<rfloor> else \<lceil>x\<rceil>) mod 256)"

text \<open>
  A double is a number \<open>m * 2 ^ e\<close> with an integer \<open>m\<close> of at most 53 bits. The result
  of an arithmetic operation on doubles is the exact result rounded to the nearest double,
  a tie going to the even \<open>m\<close>. For \<open>x\<close> with \<open>2 ^ k \<le> \<bar>x\<bar> < 2 ^ (k + 1)\<close> the doubles
  around \<open>x\<close> are the multiples of \<open>2 ^ (k - 52)\<close>; below \<open>2 ^ (- 1022)\<close> they are the
  multiples of \<open>2 ^ (- 1074)\<close>. (Numbers of \<open>2 ^ 1024\<close> and more, which round to an
  infinity, are not met here.) \<open>binaryExponent\<close> computes \<open>k\<close> from the number of bits of
  the integer part of \<open>\<bar>x\<bar>\<close>, or of its inverse.
\<close>

definition roundEven :: "real \<Rightarrow> int" where
  "roundEven x =
     (let f = \<lfloor>x\<rfloor>; r = x - of_int f
      in if r < 1 / 2 then f
         else if 1 / 2 < r then f + 1
         else if even f then f else f + 1)"

definition binaryExponent :: "real \<Rightarrow> int" where
  "binaryExponent x =
     (if 1 \<le> \<bar>x\<bar> then bitlen \<lfloor>\<bar>x\<bar>\<rfloor> - 1 else - bitlen (\<lceil>1 / \<bar>x\<bar>\<rceil> - 1))"

definition fl :: "real \<Rightarrow> real" where
  "fl x =
     (if x = 0 then 0
      else (let e = max (binaryExponent x) (- 1022) - 52
            in of_int (roundEven (x / 2 powi e)) * 2 powi e))"

text \<open>\<open>Math.round\<close> rounds to the nearest integer, ties towards plus infinity.\<close>

definition mathRound :: "real \<Rightarrow> real" where
  "mathRound x = of_int \<lfloor>x + 1 / 2\<rfloor>"

text \<open>
  The loop \<open>for (let i = 0; i < data.length; i += 4)\<close> visits the byte offsets
  \<open>0, 4, 8, ...\<close> below the (fixed) length of the array; it is a \<open>fold\<close> of the
  loop body over these offsets.
\<close>

definition pixelOffsets :: "bytes \<Rightarrow> nat list" where
  "pixelOffsets data = map (\<lambda>p. 4 * p) [0..<(length data + 3) div 4]"

definition pixelLoop :: "(nat \<Rightarrow> bytes \<Rightarrow> bytes) \<Rightarrow> bytes \<Rightarrow> bytes" where
  "pixelLoop body data = fold body (pixelOffsets data) data"

section \<open>Emboss (useImageProcessor.processImage, usePreviewEffect.generatePreview)\<close>

text \<open>
  Both hooks carry the same loop. It works in place on \<open>pixels\<close>: the body for offset
  \<open>i\<close> reads \<open>pixels[i - 4]\<close>, which an earlier iteration may already have
  overwritten. Offsets at the start of a row are skipped. (For \<open>width = 0\<close> the test
  \<open>i % 0 === 0\<close> is false in JavaScript; then \<open>pixels[-4]\<close> is \<open>undefined\<close>, the
  arithmetic gives NaN, and NaN is stored as 0.)
\<close>

definition embossStep :: "nat \<Rightarrow> nat \<Rightarrow> bytes \<Rightarrow> bytes" where
  "embossStep width i pixels =
     (if width \<noteq> 0 \<and> i mod (width * 4) = 0 then pixels
      else if i < 4 then pixels[i := 0, i + 1 := 0, i + 2 := 0]
      else
        (let factor = 2 :: real;
             r = real (pixels ! i) - real (pixels ! (i - 4));
             g = real (pixels ! (i + 1)) - real (pixels ! (i - 3));
             b = real (pixels ! (i + 2)) - real (pixels ! (i - 2))
         in pixels[i := toUint8Clamped (128 + factor * r),
                   i + 1 := toUint8Clamped (128 + factor * g),
                   i + 2 := toUint8Clamped (128 + factor * b)]))"

definition emboss :: "nat \<Rightarrow> bytes \<Rightarrow> bytes" where
  "emboss width pixels = pixelLoop (embossStep width) pixels"

text \<open>The formula of the specification, on the untouched input: each pixel but the first
  of its row becomes \<open>128 + 2 * (cur - prev)\<close> per colour channel.\<close>

definition embossOfInput :: "nat \<Rightarrow> bytes \<Rightarrow> nat \<Rightarrow> int" where
  "embossOfInput width pixels j =
     (if (j div 4) mod width = 0 \<or> j mod 4 = 3 then int (pixels ! j)
      else 128 + 2 * (int (pixels ! j) - int (pixels ! (j - 4))))"

text \<open>The state of the emboss loop after its first \<open>n\<close> iterations.\<close>

definition embossN :: "nat \<Rightarrow> nat \<Rightarrow> bytes \<Rightarrow> bytes" where
  "embossN w n px = fold (embossStep w) (map (\<lambda>p. 4 * p) [0..<n]) px"

section \<open>Background removal (BackgroundRemoval.tsx)\<close>

text \<open>
  \<open>processImage\<close> reads the canvas into \<open>data\<close> (four bytes per pixel, so
  \<open>data.length = 4 * width * height\<close>), derives a mask with one byte per pixel and
  writes the mask into the alpha bytes of \<open>data\<close>. The loops \<open>for (let y = a; y < b; y++)\<close>
  are folds over \<open>[a..<b]\<close>, the kernel loops \<open>for (let d = -n; d <= n; d++)\<close> folds
  over the integer range \<open>[-n..n]\<close>. Array reads are written with \<open>!\<close>: on a plane of
  \<open>width * height\<close> pixels every index the loops compute lies inside its array (the
  Sobel loops stay one pixel away from the border, the blur loops test the bounds).
  The source's \<open>mask\<close>, \<open>size\<close> and \<open>kernel\<close> are constants of HOL already; they
  are \<open>msk\<close>, \<open>fsize\<close> and \<open>weights\<close> here.
\<close>

definition sobelX :: "int list" where
  "sobelX = [-1, 0, 1, -2, 0, 2, -1, 0, 1]"

definition sobelY :: "int list" where
  "sobelY = [-1, -2, -1, 0, 0, 0, 1, 2, 1]"

text \<open>One of the two kernel loops of \<open>applySobelOperator\<close>: the weighted sum of the
  red bytes of the nine pixels around \<open>(x, y)\<close>.\<close>

definition kernelSum :: "int list \<Rightarrow> bytes \<Rightarrow> nat \<Rightarrow> nat \<Rightarrow> nat \<Rightarrow> int" where
  "kernelSum weights data width x y =
     fold (\<lambda>kernelY acc.
        fold (\<lambda>kernelX acc.
           (let idx = nat (((int y + kernelY) * int width + (int x + kernelX)) * 4);
                weight = weights ! nat ((kernelY + 1) * 3 + (kernelX + 1))
            in acc + int (data ! idx) * weight))
          [-1..1] acc)
       [-1..1] 0"

definition magnitude :: "bytes \<Rightarrow> nat \<Rightarrow> nat \<Rightarrow> nat \<Rightarrow> real" where
  "magnitude data width x y =
     (let pixelX = kernelSum sobelX data width x y;
          pixelY = kernelSum sobelY data width x y
      in sqrt (real_of_int (pixelX * pixelX + pixelY * pixelY)))"

text \<open>\<open>output\<close> is a \<open>Uint8Array\<close>, zero at first; the store truncates and wraps.\<close>

definition applySobelOperator :: "bytes \<Rightarrow> nat \<Rightarrow> nat \<Rightarrow> bytes" where
  "applySobelOperator data width height =
     fold (\<lambda>y output.
        fold (\<lambda>x output. output[y * width + x := toUint8 (magnitude data width x y)])
          [1..<width - 1] output)
       [1..<height - 1] (replicate (width * height) 0)"

definition colorDiff :: "nat \<Rightarrow> nat \<Rightarrow> nat \<Rightarrow> real" where
  "colorDiff r g b = sqrt ((255 - real r)\<^sup>2 + (255 - real g)\<^sup>2 + (255 - real b)\<^sup>2)"

text \<open>The body of the classification loop, for the pixel at byte offset \<open>i\<close>. (With
  \<open>width = 0\<close> the index would be NaN and the store ignored.)\<close>

definition classifyStep :: "bytes \<Rightarrow> bytes \<Rightarrow> nat \<Rightarrow> real \<Rightarrow> real \<Rightarrow> nat \<Rightarrow> bytes \<Rightarrow> bytes" where
  "classifyStep data sobelData width threshold tolerance i msk =
     (if width = 0 then msk
      else
        (let x = (i div 4) mod width;
             y = (i div 4) div width;
             idx = y * width + x;
             edgeStrength = sobelData ! idx;
             r = data ! i;
             g = data ! (i + 1);
             b = data ! (i + 2);
             isForeground = (real edgeStrength > threshold \<or> colorDiff r g b > tolerance)
         in msk[idx := (if isForeground then 255 else 0)]))"

definition classify :: "bytes \<Rightarrow> nat \<Rightarrow> nat \<Rightarrow> real \<Rightarrow> real \<Rightarrow> bytes" where
  "classify data width height threshold tolerance =
     fold (classifyStep data (applySobelOperator data width height) width threshold tolerance)
       (pixelOffsets data) (replicate (width * height) 0)"

text \<open>The closing loop of \<open>smoothMask\<close> and \<open>featherMask\<close>:
  \<open>for (let i = 0; i < mask.length; i++) mask[i] = temp[i]\<close>.\<close>

definition copyBack :: "bytes \<Rightarrow> bytes \<Rightarrow> bytes" where
  "copyBack temp msk = fold (\<lambda>i msk. msk[i := temp ! i]) [0..<length msk] msk"

text \<open>The innermost body of \<open>smoothMask\<close>, for the neighbour at offset \<open>(dx, dy)\<close> of
  \<open>(x, y)\<close>, and the two kernel loops around it (\<open>radius = 1\<close>).\<close>

definition smoothBody :: "bytes \<Rightarrow> nat \<Rightarrow> nat \<Rightarrow> nat \<Rightarrow> nat \<Rightarrow> int \<Rightarrow> int \<Rightarrow> real \<times> real \<Rightarrow> real \<times> real" where
  "smoothBody msk width height x y dy dx = (\<lambda>(sum, count).
     (let nx = int x + dx; ny = int y + dy
      in if nx \<ge> 0 \<and> nx < int width \<and> ny \<ge> 0 \<and> ny < int height
         then (sum + real (msk ! nat (ny * int width + nx)), count + 1)
         else (sum, count)))"

definition smoothAt :: "bytes \<Rightarrow> nat \<Rightarrow> nat \<Rightarrow> nat \<Rightarrow> nat \<Rightarrow> real \<times> real" where
  "smoothAt msk width height x y =
     (let radius = 1 :: int in
      fold (\<lambda>dy acc. fold (smoothBody msk width height x y dy) [- radius..radius] acc)
        [- radius..radius] (0, 0))"

definition smoothMask :: "bytes \<Rightarrow> nat \<Rightarrow> nat \<Rightarrow> bytes" where
  "smoothMask msk width height =
     (let temp =
        fold (\<lambda>y temp.
           fold (\<lambda>x temp.
              (let (sum, count) = smoothAt msk width height x y
               in temp[y * width + x := toUint8 (mathRound (sum / count))]))
             [0..<width] temp)
          [0..<height] (replicate (length msk) 0)
      in copyBack temp msk)"

text \<open>The same for \<open>featherMask\<close>, with the cone weight \<open>1 - distance / size\<close>.\<close>

definition featherBody :: "bytes \<Rightarrow> nat \<Rightarrow> nat \<Rightarrow> nat \<Rightarrow> nat \<Rightarrow> nat \<Rightarrow> int \<Rightarrow> int \<Rightarrow> real \<times> real \<Rightarrow> real \<times> real" where
  "featherBody msk width height fsize x y dy dx = (\<lambda>(sum, count).
     (let nx = int x + dx; ny = int y + dy
      in if nx \<ge> 0 \<and> nx < int width \<and> ny \<ge> 0 \<and> ny < int height
         then
           (let distance = sqrt (real_of_int (dx * dx + dy * dy))
            in if distance \<le> real fsize
               then (let weight = 1 - distance / real fsize
                     in (sum + real (msk ! nat (ny * int width + nx)) * weight, count + weight))
               else (sum, count))
         else (sum, count)))"

definition featherAt :: "bytes \<Rightarrow> nat \<Rightarrow> nat \<Rightarrow> nat \<Rightarrow> nat \<Rightarrow> nat \<Rightarrow> real \<times> real" where
  "featherAt msk width height fsize x y =
     fold (\<lambda>dy acc. fold (featherBody msk width height fsize x y dy) [- int fsize..int fsize] acc)
       [- int fsize..int fsize] (0, 0)"

text \<open>\<open>processImage\<close> calls \<open>featherMask\<close> with a positive size only. (With size 0
  the weight \<open>1 - 0 / 0\<close> would be NaN, hence every sum, and NaN is stored as 0.)\<close>

definition featherMask :: "bytes \<Rightarrow> nat \<Rightarrow> nat \<Rightarrow> nat \<Rightarrow> bytes" where
  "featherMask msk width height fsize =
     (let temp =
        fold (\<lambda>y temp.
           fold (\<lambda>x temp.
              (let (sum, count) = featherAt msk width height fsize x y
               in temp[y * width + x :=
                    (if fsize = 0 then 0 else toUint8 (mathRound (sum / count)))]))
             [0..<width] temp)
          [0..<height] (replicate (length msk) 0)
      in copyBack temp msk)"

text \<open>The four sliders of the component: \<open>threshold\<close> and \<open>tolerance\<close> (0 to 100),
  \<open>smoothing\<close> (0 to 5 passes) and \<open>featherSize\<close> (0 to 10 pixels), all whole numbers.\<close>

record segmentation =
  threshold :: real
  tolerance :: real
  smoothing :: nat
  featherSize :: nat

definition deriveMask :: "segmentation \<Rightarrow> bytes \<Rightarrow> nat \<Rightarrow> nat \<Rightarrow> bytes" where
  "deriveMask s data width height =
     (let msk = classify data width height (threshold s) (tolerance s);
          msk = (if smoothing s > 0
                  then ((\<lambda>msk. smoothMask msk width height) ^^ smoothing s) msk
                  else msk);
          msk = (if featherSize s > 0
                  then featherMask msk width height (featherSize s)
                  else msk)
      in msk)"

text \<open>The last loop of \<open>processImage\<close>: \<open>data[i + 3] = mask[Math.floor(i / 4)]\<close>. Beyond
  the mask the read is \<open>undefined\<close>, stored as 0.\<close>

definition applyMask :: "bytes \<Rightarrow> bytes \<Rightarrow> bytes" where
  "applyMask msk data =
     pixelLoop (\<lambda>i data.
        (let idx = i div 4;
             alpha = (if idx < length msk then msk ! idx else 0)
         in data[i + 3 := alpha])) data"

definition removeBackground :: "segmentation \<Rightarrow> bytes \<Rightarrow> nat \<Rightarrow> nat \<Rightarrow> bytes" where
  "removeBackground s data width height = applyMask (deriveMask s data width height) data"

text \<open>A buffer of \<open>n\<close> pixels, all of one colour.\<close>

definition solid :: "nat \<Rightarrow> nat \<Rightarrow> nat \<Rightarrow> nat \<Rightarrow> nat \<Rightarrow> bytes" where
  "solid n r g b a = concat (replicate n [r, g, b, a])"

text \<open>A 3 by 3 buffer: a white centre column between a column of red value 191 on the
  left and white on the right, so the horizontal gradient at the centre is 256.\<close>

definition edgeExample :: bytes where
  "edgeExample =
     [191, 191, 191, 255, 255, 255, 255, 255, 255, 255, 255, 255,
      191, 191, 191, 255, 255, 255, 255, 255, 255, 255, 255, 255,
      191, 191, 191, 255, 255, 255, 255, 255, 255, 255, 255, 255]"

section \<open>Advanced effects (AdvancedEffects.applyAdvancedEffects)\<close>

text \<open>
  The effect parameters are the component's state variables. \<open>colorBalance\<close> is an object
  with fields \<open>r\<close>, \<open>g\<close>, \<open>b\<close>; the two split-toning colours are hex strings.
\<close>

datatype axis = Vertical | Horizontal | Both

record effects =
  noiseAmount :: real
  kaleidoscope :: real
  mirror :: bool
  mirrorAxis :: axis
  colorSplash :: bool
  targetHue :: real
  hueTolerance :: real
  glitchIntensity :: real
  gamma :: real
  colorBalanceR :: real
  colorBalanceG :: real
  colorBalanceB :: real
  splitToning :: bool
  highlightColor :: string
  shadowColor :: string

subsection \<open>The helper functions\<close>

text \<open>\<open>rgbToHsl\<close>, every operation a double operation. \<open>h\<close> and \<open>s\<close> start as 0 and
  are assigned when \<open>max\<close> and \<open>min\<close> differ. The \<open>switch (max)\<close> takes the first of
  the cases \<open>r\<close>, \<open>g\<close>, \<open>b\<close> that equals \<open>max\<close>; \<open>2 - max - min\<close> is
  \<open>(2 - max) - min\<close>. (\<open>max\<close> and \<open>min\<close> are \<open>mx\<close> and \<open>mn\<close> here.)\<close>

definition rgbToHsl :: "real \<Rightarrow> real \<Rightarrow> real \<Rightarrow> real \<times> real \<times> real" where
  "rgbToHsl r0 g0 b0 =
     (let r = fl (r0 / 255); g = fl (g0 / 255); b = fl (b0 / 255);
          mx = max r (max g b);
          mn = min r (min g b);
          l = fl (fl (mx + mn) / 2);
          (h, s) =
            (if mx \<noteq> mn
             then
               (let d = fl (mx - mn);
                    s = (if l > 0.5 then fl (d / fl (fl (2 - mx) - mn)) else fl (d / fl (mx + mn)));
                    h = (if mx = r then fl (fl (fl (g - b) / d) + (if g < b then 6 else 0))
                         else if mx = g then fl (fl (fl (b - r) / d) + 2)
                         else if mx = b then fl (fl (fl (r - g) / d) + 4)
                         else 0);
                    h = fl (h / 6)
                in (h, s))
             else (0, 0))
      in (fl (h * 360), fl (s * 100), fl (l * 100)))"

record rgb =
  rgb_r :: nat
  rgb_g :: nat
  rgb_b :: nat

definition hexDigit :: "char \<Rightarrow> nat option" where
  "hexDigit c =
     (let n = of_char c :: nat
      in if 48 \<le> n \<and> n \<le> 57 then Some (n - 48)
         else if 97 \<le> n \<and> n \<le> 102 then Some (n - 87)
         else if 65 \<le> n \<and> n \<le> 70 then Some (n - 55)
         else None)"

text \<open>\<open>hexToRgb\<close>: an optional \<open>#\<close> and exactly six hex digits, in either case; any
  other string gives black.\<close>

definition hexToRgb :: "string \<Rightarrow> rgb" where
  "hexToRgb hex =
     (let digits = (case hex of c # rest \<Rightarrow> if c = CHR ''#'' then rest else hex | [] \<Rightarrow> hex)
      in case map hexDigit digits of
           [Some a, Some b, Some c, Some d, Some e, Some f] \<Rightarrow>
             \<lparr>rgb_r = 16 * a + b, rgb_g = 16 * c + d, rgb_b = 16 * e + f\<rparr>
         | _ \<Rightarrow> \<lparr>rgb_r = 0, rgb_g = 0, rgb_b = 0\<rparr>)"

text \<open>\<open>Math.pow\<close> on a base that is never negative here (a byte over 255). For base 0
  and a negative exponent the result is \<open>Infinity\<close>, which the caller treats apart.\<close>

definition mathPow :: "real \<Rightarrow> real \<Rightarrow> real" where
  "mathPow x y = (if y = 0 then 1 else x powr y)"

subsection \<open>The loops over \<open>data\<close>\<close>

text \<open>
  Each is the body of one \<open>for (let i = 0; i < data.length; i += 4)\<close> loop, for the pixel
  at byte offset \<open>i\<close>. \<open>Math.random\<close> is a parameter: \<open>random k\<close> is what its \<open>k\<close>-th
  call of the run returns (a number from 0 up to, not including, 1). The noise loop draws
  once for a pixel and adds the same noise to its three colour bytes.
\<close>

definition noiseStep :: "(nat \<Rightarrow> real) \<Rightarrow> real \<Rightarrow> nat \<Rightarrow> bytes \<Rightarrow> bytes" where
  "noiseStep random amount i data =
     (let noise = (random (i div 4) - 0.5) * amount
      in data[i := toUint8Clamped (min 255 (max 0 (real (data ! i) + noise))),
              i + 1 := toUint8Clamped (min 255 (max 0 (real (data ! (i + 1)) + noise))),
              i + 2 := toUint8Clamped (min 255 (max 0 (real (data ! (i + 2)) + noise)))])"

text \<open>The colour splash loop, in doubles as well: the literals \<open>0.2126\<close>, \<open>0.7152\<close>
  and \<open>0.0722\<close> are the doubles nearest to them, the products and the two sums round.\<close>

definition colorSplashStep :: "real \<Rightarrow> real \<Rightarrow> nat \<Rightarrow> bytes \<Rightarrow> bytes" where
  "colorSplashStep target tol i data =
     (let r = real (data ! i);
          g = real (data ! (i + 1));
          b = real (data ! (i + 2));
          (h, s, l) = rgbToHsl r g b;
          hueDiff = \<bar>fl (h - target)\<bar>
      in if hueDiff > tol \<and> fl (360 - hueDiff) > tol
         then
           (let gray = fl (fl (fl (fl 0.2126 * r) + fl (fl 0.7152 * g)) + fl (fl 0.0722 * b))
            in data[i := toUint8Clamped gray,
                    i + 1 := toUint8Clamped gray,
                    i + 2 := toUint8Clamped gray])
         else data)"

definition gammaByte :: "real \<Rightarrow> nat \<Rightarrow> nat" where
  "gammaByte gam v =
     (if v = 0 \<and> gam < 0 then 255
      else toUint8Clamped (mathPow (real v / 255) gam * 255))"

definition gammaStep :: "real \<Rightarrow> nat \<Rightarrow> bytes \<Rightarrow> bytes" where
  "gammaStep gam i data =
     data[i := gammaByte gam (data ! i),
          i + 1 := gammaByte gam (data ! (i + 1)),
          i + 2 := gammaByte gam (data ! (i + 2))]"

definition colorBalanceStep :: "real \<Rightarrow> real \<Rightarrow> real \<Rightarrow> nat \<Rightarrow> bytes \<Rightarrow> bytes" where
  "colorBalanceStep cr cg cb i data =
     data[i := toUint8Clamped (min 255 (max 0 (real (data ! i) + cr))),
          i + 1 := toUint8Clamped (min 255 (max 0 (real (data ! (i + 1)) + cg))),
          i + 2 := toUint8Clamped (min 255 (max 0 (real (data ! (i + 2)) + cb)))]"

definition splitToningStep :: "rgb \<Rightarrow> rgb \<Rightarrow> nat \<Rightarrow> bytes \<Rightarrow> bytes" where
  "splitToningStep highlights shadows i data =
     (let brightness = (real (data ! i) + real (data ! (i + 1)) + real (data ! (i + 2))) / (3 * 255)
      in if brightness > 0.5
         then data[i := toUint8Clamped ((real (data ! i) + real (rgb_r highlights)) / 2),
                   i + 1 := toUint8Clamped ((real (data ! (i + 1)) + real (rgb_g highlights)) / 2),
                   i + 2 := toUint8Clamped ((real (data ! (i + 2)) + real (rgb_b highlights)) / 2)]
         else data[i := toUint8Clamped ((real (data ! i) + real (rgb_r shadows)) / 2),
                   i + 1 := toUint8Clamped ((real (data ! (i + 1)) + real (rgb_g shadows)) / 2),
                   i + 2 := toUint8Clamped ((real (data ! (i + 2)) + real (rgb_b shadows)) / 2)])"

text \<open>The five loops with their guards, as stages on \<open>data\<close>.\<close>

definition noiseStage :: "effects \<Rightarrow> (nat \<Rightarrow> real) \<Rightarrow> bytes \<Rightarrow> bytes" where
  "noiseStage fx random data =
     (if noiseAmount fx > 0 then pixelLoop (noiseStep random (noiseAmount fx)) data else data)"

definition colorSplashStage :: "effects \<Rightarrow> bytes \<Rightarrow> bytes" where
  "colorSplashStage fx data =
     (if colorSplash fx then pixelLoop (colorSplashStep (targetHue fx) (hueTolerance fx)) data
      else data)"

definition gammaStage :: "effects \<Rightarrow> bytes \<Rightarrow> bytes" where
  "gammaStage fx data = (if gamma fx \<noteq> 1 then pixelLoop (gammaStep (gamma fx)) data else data)"

definition colorBalanceStage :: "effects \<Rightarrow> bytes \<Rightarrow> bytes" where
  "colorBalanceStage fx data =
     (if colorBalanceR fx \<noteq> 0 \<or> colorBalanceG fx \<noteq> 0 \<or> colorBalanceB fx \<noteq> 0
      then pixelLoop (colorBalanceStep (colorBalanceR fx) (colorBalanceG fx) (colorBalanceB fx)) data
      else data)"

definition splitToningStage :: "effects \<Rightarrow> bytes \<Rightarrow> bytes" where
  "splitToningStage fx data =
     (if splitToning fx
      then pixelLoop (splitToningStep (hexToRgb (highlightColor fx)) (hexToRgb (shadowColor fx))) data
      else data)"

subsection \<open>The canvas\<close>

text \<open>
  Kaleidoscope, mirror and glitch do not touch \<open>data\<close>: they draw on the canvas through
  its 2D context. What the browser's rasteriser does with a drawing call is outside the
  repository and is a parameter: \<open>drawImage\<close> draws a source bitmap at an offset under the
  context's current transformation onto a destination bitmap, \<open>getImageData\<close> reads a
  rectangle, \<open>putImageData\<close> writes one at an offset. A bitmap is the byte plane of the
  canvas. Two facts of the canvas API are fixed: \<open>getImageData\<close> with a zero width or
  height throws \<open>IndexSizeError\<close>, and \<open>putImageData\<close> of an image as large as the
  canvas at \<open>(0, 0)\<close> replaces the whole bitmap, whatever the transformation.
\<close>

datatype xform = Translate real real | Rotate real | Scale real real

record browser =
  drawImage :: "xform list \<Rightarrow> bytes \<Rightarrow> real \<Rightarrow> real \<Rightarrow> bytes \<Rightarrow> bytes"
  getImageData :: "bytes \<Rightarrow> int \<Rightarrow> int \<Rightarrow> nat \<Rightarrow> nat \<Rightarrow> bytes"
  putImageData :: "bytes \<Rightarrow> int \<Rightarrow> int \<Rightarrow> bytes \<Rightarrow> bytes"

datatype error = IndexSizeError | InvalidStateError

text \<open>The state of one run: the bitmap of \<open>canvas\<close>, the transformation of \<open>ctx\<close>, the
  array \<open>data\<close> read from the canvas at the start (field \<open>imgData\<close>), and the number of calls of
  \<open>Math.random\<close> made so far.\<close>

record run =
  bitmap :: bytes
  transform :: "xform list"
  imgData :: bytes
  calls :: nat

definition noiseEffect :: "effects \<Rightarrow> (nat \<Rightarrow> real) \<Rightarrow> run \<Rightarrow> run" where
  "noiseEffect fx random st =
     (if noiseAmount fx > 0
      then st\<lparr>imgData := noiseStage fx (\<lambda>k. random (calls st + k)) (imgData st),
              calls := calls st + length (pixelOffsets (imgData st))\<rparr>
      else st)"

text \<open>The kaleidoscope draws \<open>segments\<close> rotated copies of the canvas on a fresh
  (transparent) canvas and draws that back.\<close>

definition kaleidoscopeEffect :: "browser \<Rightarrow> effects \<Rightarrow> nat \<Rightarrow> nat \<Rightarrow> run \<Rightarrow> run" where
  "kaleidoscopeEffect br fx width height st =
     (if kaleidoscope fx > 0
      then
        (let segments = nat \<lfloor>kaleidoscope fx * 8\<rfloor> + 2;
             centerX = real width / 2;
             centerY = real height / 2;
             angle = (pi * 2) / real segments;
             tempCanvas =
               fold (\<lambda>i temp.
                  drawImage br [Translate centerX centerY, Rotate (angle * real i)]
                    (bitmap st) (- centerX) (- centerY) temp)
                 [0..<segments] (replicate (4 * (width * height)) 0)
         in st\<lparr>bitmap := drawImage br (transform st) tempCanvas 0 0 (bitmap st)\<rparr>)
      else st)"

text \<open>The mirror scales the context (for good: there is no \<open>save\<close>) and draws the
  canvas onto itself. (It also copies the canvas to a \<open>tempCanvas\<close> that nothing reads.)\<close>

definition mirrorEffect :: "browser \<Rightarrow> effects \<Rightarrow> nat \<Rightarrow> nat \<Rightarrow> run \<Rightarrow> run" where
  "mirrorEffect br fx width height st =
     (if mirror fx
      then
        (let st = (if mirrorAxis fx = Vertical \<or> mirrorAxis fx = Both
                   then (let t = transform st @ [Scale (- 1) 1]
                         in st\<lparr>transform := t,
                                bitmap := drawImage br t (bitmap st) (- real width) 0 (bitmap st)\<rparr>)
                   else st);
             st = (if mirrorAxis fx = Horizontal \<or> mirrorAxis fx = Both
                   then (let t = transform st @ [Scale 1 (- 1)]
                         in st\<lparr>transform := t,
                                bitmap := drawImage br t (bitmap st) 0 (- real height) (bitmap st)\<rparr>)
                   else st)
         in st)
      else st)"

definition colorSplashEffect :: "effects \<Rightarrow> run \<Rightarrow> run" where
  "colorSplashEffect fx st = st\<lparr>imgData := colorSplashStage fx (imgData st)\<rparr>"

text \<open>One iteration of the glitch loop: two calls of \<open>Math.random\<close>, then a slice of the
  canvas is read and written back displaced.\<close>

definition glitchSlice :: "browser \<Rightarrow> effects \<Rightarrow> (nat \<Rightarrow> real) \<Rightarrow> nat \<Rightarrow> nat \<Rightarrow> run \<Rightarrow> error + run" where
  "glitchSlice br fx random width height st =
     (let sliceHeight = height div 20;
          y = \<lfloor>random (calls st) * real height\<rfloor>;
          offset = \<lfloor>(random (calls st + 1) - 0.5) * glitchIntensity fx * 50\<rfloor>
      in if width = 0 \<or> sliceHeight = 0 then Inl IndexSizeError
         else
           (let sliceData = getImageData br (bitmap st) 0 y width sliceHeight
            in Inr (st\<lparr>bitmap := putImageData br sliceData offset y (bitmap st),
                        calls := calls st + 2\<rparr>)))"

primrec glitchLoop :: "browser \<Rightarrow> effects \<Rightarrow> (nat \<Rightarrow> real) \<Rightarrow> nat \<Rightarrow> nat \<Rightarrow> nat \<Rightarrow> run \<Rightarrow> error + run" where
  "glitchLoop br fx random width height 0 st = Inr st"
| "glitchLoop br fx random width height (Suc n) st =
     (case glitchSlice br fx random width height st of
        Inl e \<Rightarrow> Inl e
      | Inr st' \<Rightarrow> glitchLoop br fx random width height n st')"

definition glitchEffect :: "browser \<Rightarrow> effects \<Rightarrow> (nat \<Rightarrow> real) \<Rightarrow> nat \<Rightarrow> nat \<Rightarrow> run \<Rightarrow> error + run" where
  "glitchEffect br fx random width height st =
     (if glitchIntensity fx > 0
      then (let numSlices = nat \<lfloor>glitchIntensity fx * 5\<rfloor>
            in glitchLoop br fx random width height numSlices st)
      else Inr st)"

definition tailEffects :: "effects \<Rightarrow> run \<Rightarrow> run" where
  "tailEffects fx st =
     st\<lparr>imgData := splitToningStage fx (colorBalanceStage fx (gammaStage fx (imgData st)))\<rparr>"

text \<open>
  \<open>applyAdvancedEffects\<close>, from the bytes read off the canvas to the bitmap that is
  encoded: the effects in the order of the source, then
  \<open>ctx.putImageData(imageData, 0, 0)\<close>. An exception leaves the promise rejected.
\<close>

definition applyAdvancedEffects :: "browser \<Rightarrow> effects \<Rightarrow> (nat \<Rightarrow> real) \<Rightarrow> nat \<Rightarrow> nat \<Rightarrow> bytes \<Rightarrow> error + bytes" where
  "applyAdvancedEffects br fx random width height source =
     (let st = \<lparr>bitmap = source, transform = [], imgData = source, calls = 0\<rparr>;
          st = noiseEffect fx random st;
          st = kaleidoscopeEffect br fx width height st;
          st = mirrorEffect br fx width height st;
          st = colorSplashEffect fx st
      in case glitchEffect br fx random width height st of
           Inl e \<Rightarrow> Inl e
         | Inr st \<Rightarrow>
             (let st = tailEffects fx st;
                  st = st\<lparr>bitmap := imgData st\<rparr>
              in Inr (bitmap st)))"

text \<open>The alpha bytes of a buffer, pixel by pixel.\<close>

definition alphaPlane :: "bytes \<Rightarrow> nat list" where
  "alphaPlane data = map (\<lambda>p. data ! (4 * p + 3)) [0..<length data div 4]"

text \<open>A browser for the examples whose settings draw nothing: its calls leave the
  destination as it is.\<close>

definition idleBrowser :: browser where
  "idleBrowser =
     \<lparr>drawImage = (\<lambda>t src dx dy dst. dst),
      getImageData = (\<lambda>bmp sx sy sw sh. replicate (4 * (sw * sh)) 0),
      putImageData = (\<lambda>img dx dy dst. dst)\<rparr>"

text \<open>The settings the component starts with (and returns to on reset).\<close>

definition defaultEffects :: effects where
  "defaultEffects =
     \<lparr>noiseAmount = 0, kaleidoscope = 0, mirror = False, mirrorAxis = Vertical,
      colorSplash = False, targetHue = 0, hueTolerance = 20, glitchIntensity = 0,
      gamma = 1, colorBalanceR = 0, colorBalanceG = 0, colorBalanceB = 0,
      splitToning = False, highlightColor = ''#ffeb3b'', shadowColor = ''#3f51b5''\<rparr>"

text \<open>
  The words of the specification, in exact arithmetic: the hue of a pixel in the HSL
  colour model, in degrees, and the circular hue distance
  \<open>min(|h - target|, 360 - |h - target|)\<close>.
\<close>

definition hslHue :: "nat \<Rightarrow> nat \<Rightarrow> nat \<Rightarrow> real" where
  "hslHue r g b =
     (let mx = max r (max g b); mn = min r (min g b); d = real mx - real mn
      in if mx = mn then 0
         else if mx = r then 60 * ((real g - real b) / d + (if g < b then 6 else 0))
         else if mx = g then 60 * ((real b - real r) / d + 2)
         else 60 * ((real r - real g) / d + 4))"

definition hueDistance :: "real \<Rightarrow> real \<Rightarrow> real" where
  "hueDistance h target = min \<bar>h - target\<bar> (360 - \<bar>h - target\<bar>)"

text \<open>
  What the code computes for a pixel: the hue as \<open>rgbToHsl\<close> returns it, the test of the
  colour splash loop on a hue, and the grey byte the loop stores, the sum of doubles
  rounded as the byte array rounds it.
\<close>

definition hueOf :: "nat \<Rightarrow> nat \<Rightarrow> nat \<Rightarrow> real" where
  "hueOf r g b = fst (rgbToHsl (real r) (real g) (real b))"

definition hueOutside :: "real \<Rightarrow> real \<Rightarrow> real \<Rightarrow> bool" where
  "hueOutside h target tol \<longleftrightarrow>
     (let hueDiff = \<bar>fl (h - target)\<bar> in hueDiff > tol \<and> fl (360 - hueDiff) > tol)"

definition luminanceGray :: "nat \<Rightarrow> nat \<Rightarrow> nat \<Rightarrow> nat" where
  "luminanceGray r g b =
     toUint8Clamped
       (fl (fl (fl (fl 0.2126 * real r) + fl (fl 0.7152 * real g)) + fl (fl 0.0722 * real b)))"

text \<open>A canvas of 2 by 20 pixels, the left column red and the right column blue.\<close>

definition twoColumns :: bytes where
  "twoColumns = concat (replicate 20 [255, 0, 0, 255, 0, 0, 255, 255])"

text \<open>When the glitch loop throws, and the five loops over \<open>data\<close> in a row.\<close>

definition glitchThrows :: "effects \<Rightarrow> nat \<Rightarrow> nat \<Rightarrow> bool" where
  "glitchThrows fx width height \<longleftrightarrow>
     glitchIntensity fx > 0 \<and> 0 < nat \<lfloor>glitchIntensity fx * 5\<rfloor> \<and> (width = 0 \<or> height div 20 = 0)"

definition dataEffects :: "effects \<Rightarrow> (nat \<Rightarrow> real) \<Rightarrow> bytes \<Rightarrow> bytes" where
  "dataEffects fx random source =
     splitToningStage fx (colorBalanceStage fx (gammaStage fx
       (colorSplashStage fx (noiseStage fx random source))))"

section \<open>The hooks: useImageProcessor and usePreviewEffect\<close>

text \<open>
  The options of a conversion, the same sixteen values the preview hook receives. (The
  flag \<open>emboss\<close> is \<open>embossOn\<close> here, next to the function \<open>emboss\<close>.)
\<close>

record options =
  format :: string
  quality :: real
  brightness :: real
  contrast :: real
  rotation :: real
  flipX :: bool
  flipY :: bool
  blur :: real
  saturation :: real
  sepia :: real
  hueRotate :: real
  invert :: bool
  grayscale :: bool
  pixelate :: real
  embossOn :: bool
  tintColor :: string
  tintIntensity :: real

text \<open>The filter string, as the list of its functions: six are always present, the
  empty strings of an absent \<open>invert\<close> and \<open>grayscale\<close> are filtered out.\<close>

datatype cssFilter =
  Brightness real | Contrast real | Blur real | Saturate real | Sepia real | HueRotate real
  | Invert real | Grayscale real

definition filters :: "options \<Rightarrow> cssFilter list" where
  "filters opts =
     [Brightness (brightness opts), Contrast (contrast opts), Blur (blur opts),
      Saturate (saturation opts), Sepia (sepia opts), HueRotate (hueRotate opts)]
     @ (if invert opts then [Invert 100] else [])
     @ (if grayscale opts then [Grayscale 100] else [])"

text \<open>
  A decoded image, and the drawing calls the two hooks make, again parameters: the draw
  of the image under a transformation onto a cleared canvas, the scaled draw of a bitmap
  of one size into a cleared canvas of another, the draw of a canvas onto a fresh one
  under a filter list, and the fill of the whole canvas with a colour in \<open>multiply\<close>
  mode at an alpha, under the filter list of that context.
\<close>

record image =
  imgWidth :: nat
  imgHeight :: nat
  imgPixels :: bytes

record painter =
  paintImage :: "xform list \<Rightarrow> image \<Rightarrow> bytes \<Rightarrow> bytes"
  paintScaled :: "bytes \<Rightarrow> nat \<Rightarrow> nat \<Rightarrow> nat \<Rightarrow> nat \<Rightarrow> bytes"
  paintFiltered :: "cssFilter list \<Rightarrow> bytes \<Rightarrow> bytes"
  fillRect :: "cssFilter list \<Rightarrow> string \<Rightarrow> real \<Rightarrow> bytes \<Rightarrow> bytes"

text \<open>The blocks the two hooks share word for word: the geometric transform, the
  pixelation and the emboss loop. In the pixelation \<open>1 / pixelate\<close> and the two products
  are double operations, and the assignment to \<open>tempCanvas.width\<close> truncates; a source
  canvas of width or height 0 makes \<open>drawImage\<close> throw \<open>InvalidStateError\<close>.\<close>

definition geometric :: "painter \<Rightarrow> options \<Rightarrow> image \<Rightarrow> bytes" where
  "geometric p opts img =
     (let w = real (imgWidth img); h = real (imgHeight img)
      in paintImage p
           [Translate (w / 2) (h / 2), Rotate (rotation opts * pi / 180),
            Scale (if flipX opts then - 1 else 1) (if flipY opts then - 1 else 1),
            Translate (- w / 2) (- h / 2)]
           img (replicate (4 * (imgWidth img * imgHeight img)) 0))"

definition pixelation :: "painter \<Rightarrow> options \<Rightarrow> nat \<Rightarrow> nat \<Rightarrow> bytes \<Rightarrow> error + bytes" where
  "pixelation p opts width height canvas =
     (if pixelate opts > 1
      then
        (let scale = fl (1 / pixelate opts);
             tempWidth = nat \<lfloor>fl (real width * scale)\<rfloor>;
             tempHeight = nat \<lfloor>fl (real height * scale)\<rfloor>;
             tempCanvas = paintScaled p canvas width height tempWidth tempHeight
         in if tempWidth = 0 \<or> tempHeight = 0 then Inl InvalidStateError
            else Inr (paintScaled p tempCanvas tempWidth tempHeight width height))
      else Inr canvas)"

definition embossBlock :: "options \<Rightarrow> nat \<Rightarrow> bytes \<Rightarrow> bytes" where
  "embossBlock opts width canvas = (if embossOn opts then emboss width canvas else canvas)"

text \<open>
  The canvas part of \<open>processImage\<close> (useImageProcessor): transform, pixelation, emboss,
  then the filtered draw onto \<open>tempCanvas\<close>, then the tint, filled on \<open>tempCanvas\<close> whose
  context still carries the filter.
\<close>

definition processCanvas :: "painter \<Rightarrow> options \<Rightarrow> image \<Rightarrow> error + bytes" where
  "processCanvas p opts img =
     (let canvas = geometric p opts img
      in case pixelation p opts (imgWidth img) (imgHeight img) canvas of
           Inl e \<Rightarrow> Inl e
         | Inr canvas \<Rightarrow>
             (let canvas = embossBlock opts (imgWidth img) canvas;
                  tempCanvas = paintFiltered p (filters opts) canvas;
                  tempCanvas =
                    (if tintColor opts \<noteq> ''none''
                     then fillRect p (filters opts) (tintColor opts) (tintIntensity opts / 100)
                            tempCanvas
                     else tempCanvas)
              in Inr tempCanvas))"

text \<open>
  \<open>generatePreview\<close> (usePreviewEffect): transform, pixelation, emboss, then the tint,
  filled on \<open>canvas\<close> (no filter there), then the filtered draw onto \<open>tempCanvas\<close>.
\<close>

definition generatePreview :: "painter \<Rightarrow> options \<Rightarrow> image \<Rightarrow> error + bytes" where
  "generatePreview p opts img =
     (let canvas = geometric p opts img
      in case pixelation p opts (imgWidth img) (imgHeight img) canvas of
           Inl e \<Rightarrow> Inl e
         | Inr canvas \<Rightarrow>
             (let canvas = embossBlock opts (imgWidth img) canvas;
                  canvas =
                    (if tintColor opts \<noteq> ''none''
                     then fillRect p [] (tintColor opts) (tintIntensity opts / 100) canvas
                     else canvas);
                  tempCanvas = paintFiltered p (filters opts) canvas
              in Inr tempCanvas))"

subsection \<open>Files, promises and the batch\<close>














subsection \<open>A platform for the examples\<close>

text \<open>
  The examples run on one-pixel, opaque canvases with the neutral brightness, contrast,
  blur, saturation, sepia and hue rotation. There the filter list acts through
  \<open>invert(100%)\<close> alone, which maps a colour byte \<open>c\<close> to \<open>255 - c\<close>, and a fill in
  \<open>multiply\<close> mode at alpha \<open>a\<close> maps \<open>c\<close> to \<open>(1 - a) * c + a * (c * t / 255)\<close> for the
  byte \<open>t\<close> of the fill colour, which the filter of the context inverts first. The
  example decoder takes any file with bytes for a single white pixel and fails on an
  empty file; encoding and compression hand the bytes on.
\<close>

definition invertPixel :: "bytes \<Rightarrow> bytes" where
  "invertPixel px = (case px of [r, g, b, a] \<Rightarrow> [255 - r, 255 - g, 255 - b, a] | _ \<Rightarrow> px)"

definition multiplyPixel :: "rgb \<Rightarrow> real \<Rightarrow> bytes \<Rightarrow> bytes" where
  "multiplyPixel t a px =
     (case px of
        [r, g, b, al] \<Rightarrow>
          [toUint8Clamped ((1 - a) * real r + a * (real r * real (rgb_r t) / 255)),
           toUint8Clamped ((1 - a) * real g + a * (real g * real (rgb_g t) / 255)),
           toUint8Clamped ((1 - a) * real b + a * (real b * real (rgb_b t) / 255)), al]
      | _ \<Rightarrow> px)"

definition invertRgb :: "rgb \<Rightarrow> rgb" where
  "invertRgb t = \<lparr>rgb_r = 255 - rgb_r t, rgb_g = 255 - rgb_g t, rgb_b = 255 - rgb_b t\<rparr>"

definition examplePainter :: painter where
  "examplePainter =
     \<lparr>paintImage = (\<lambda>t img dst. imgPixels img),
      paintScaled = (\<lambda>src sw sh dw dh. src),
      paintFiltered = (\<lambda>fs src. if Invert 100 \<in> set fs then invertPixel src else src),
      fillRect = (\<lambda>fs colour a dst.
         multiplyPixel (if Invert 100 \<in> set fs then invertRgb (hexToRgb colour) else hexToRgb colour)
           a dst)\<rparr>"


definition neutralOptions :: options where
  "neutralOptions =
     \<lparr>format = ''png'', quality = 90, brightness = 100, contrast = 100, rotation = 0,
      flipX = False, flipY = False, blur = 0, saturation = 100, sepia = 0, hueRotate = 0,
      invert = False, grayscale = False, pixelate = 1, embossOn = False,
      tintColor = ''none'', tintIntensity = 0\<rparr>"

definition whitePixel :: image where
  "whitePixel = \<lparr>imgWidth = 1, imgHeight = 1, imgPixels = [255, 255, 255, 255]\<rparr>"


text \<open>The neutral options with \<open>invert\<close> on and a black tint at 100 percent.\<close>

definition invertedBlackTint :: options where
  "invertedBlackTint = neutralOptions\<lparr>invert := True, tintColor := ''#000000'', tintIntensity := 100\<rparr>"

section \<open>Auxiliary definitions for the proofs\<close>

text \<open>The red byte of the pixel at offset \<open>(kx, ky)\<close> from \<open>(x, y)\<close>, as the kernel
  loops of \<open>applySobelOperator\<close> read it.\<close>

definition redAt :: "bytes \<Rightarrow> nat \<Rightarrow> nat \<Rightarrow> nat \<Rightarrow> int \<Rightarrow> int \<Rightarrow> int" where
  "redAt data w x y ky kx = int (data ! nat (((int y + ky) * int w + (int x + kx)) * 4))"

text \<open>The state of a four-bytes-a-pixel loop after its first \<open>n\<close> iterations.\<close>

definition loopN :: "(nat \<Rightarrow> bytes \<Rightarrow> bytes) \<Rightarrow> nat \<Rightarrow> bytes \<Rightarrow> bytes" where
  "loopN body n data = fold body (map (\<lambda>p. 4 * p) [0..<n]) data"

text \<open>Half the distance between 1 and the next double, the largest relative error of one
  rounding; and the double that \<open>rgbToHsl\<close> makes of a byte.\<close>

definition unitRoundoff :: real where
  "unitRoundoff = 1 / 2 ^ 53"

definition chan :: "nat \<Rightarrow> real" where
  "chan k = fl (real k / 255)"

section \<open>Properties of the emboss stage\<close>

lemma length_embossStep [simp]: "length (embossStep w i px) = length px"
  by (simp add: embossStep_def Let_def)

lemma embossStep_other: "j < i \<or> i + 3 \<le> j \<Longrightarrow> embossStep w i px ! j = px ! j"
  by (auto simp add: embossStep_def Let_def)

lemma embossN_Suc: "embossN w (Suc n) px = embossStep w (4 * n) (embossN w n px)"
  by (simp add: embossN_def)

lemma length_embossN [simp]: "length (embossN w n px) = length px"
  by (induction n) (simp_all add: embossN_Suc, simp add: embossN_def)

text \<open>The first \<open>n\<close> iterations write below offset \<open>4 * n\<close> only, and the later ones
  at or above it only.\<close>

lemma embossN_ge: "4 * n \<le> j \<Longrightarrow> embossN w n px ! j = px ! j"
proof (induction n)
  case 0
  then show ?case by (simp add: embossN_def)
next
  case (Suc n)
  then show ?case by (simp add: embossN_Suc embossStep_other)
qed

lemma embossN_stable: "n \<le> m \<Longrightarrow> j < 4 * n \<Longrightarrow> embossN w m px ! j = embossN w n px ! j"
proof (induction m rule: dec_induct)
  case base
  then show ?case by simp
next
  case (step m)
  then show ?case by (simp add: embossN_Suc embossStep_other)
qed

lemma emboss_embossN: "length px = 4 * k \<Longrightarrow> emboss w px = embossN w k px"
  by (simp add: emboss_def pixelLoop_def pixelOffsets_def embossN_def)

lemma embossStep_at:
  assumes "0 < w" "c < 3" "4 \<le> i \<or> i mod (w * 4) = 0" "i + c < length px"
  shows "embossStep w i px ! (i + c) =
     (if i mod (w * 4) = 0 then px ! (i + c)
      else toUint8Clamped (128 + 2 * (real (px ! (i + c)) - real (px ! (i + c - 4)))))"
proof -
  from assms(2) consider "c = 0" | "c = 1" | "c = 2" by linarith
  then show ?thesis
    using assms(1,3,4) by cases (auto simp add: embossStep_def Let_def nth_list_update)
qed

text \<open>The value the loop leaves at a colour byte, in terms of what it had left, by then,
  at the same byte of the pixel before; and the alpha bytes.\<close>

lemma emboss_recurrence:
  assumes "0 < w" and "length px = 4 * (w * h)" and "p < w * h" and "c < 3"
  shows "emboss w px ! (4 * p + c) =
           (if p mod w = 0 then px ! (4 * p + c)
            else toUint8Clamped
                   (128 + 2 * (real (px ! (4 * p + c)) - real (emboss w px ! (4 * (p - 1) + c)))))
         \<and> emboss w px ! (4 * p + 3) = px ! (4 * p + 3)"
proof -
  let ?out = "emboss w px"
  let ?before = "embossN w p px"
  have out: "?out = embossN w (w * h) px"
    using assms(2) by (rule emboss_embossN)
  have Sp: "Suc p \<le> w * h" using assms(3) by simp
  have row: "(4 * p) mod (w * 4) = 0 \<longleftrightarrow> p mod w = 0"
    using assms(1) by (simp add: mult.commute)
  have cur: "?before ! (4 * p + c) = px ! (4 * p + c)"
    by (simp add: embossN_ge)
  have inrange: "4 * p + c < length ?before"
    using assms(2,3,4) by simp
  have start: "4 \<le> 4 * p \<or> (4 * p) mod (w * 4) = 0"
    by (cases p) simp_all
  have "?out ! (4 * p + c) = embossN w (Suc p) px ! (4 * p + c)"
    unfolding out using Sp assms(4) by (intro embossN_stable) simp_all
  also have "\<dots> = embossStep w (4 * p) ?before ! (4 * p + c)"
    by (simp add: embossN_Suc)
  also have "\<dots> = (if p mod w = 0 then px ! (4 * p + c)
      else toUint8Clamped
             (128 + 2 * (real (px ! (4 * p + c)) - real (?before ! (4 * p + c - 4)))))"
    using embossStep_at [OF assms(1) assms(4) start inrange] by (simp add: row cur)
  finally have colour: "?out ! (4 * p + c) =
      (if p mod w = 0 then px ! (4 * p + c)
       else toUint8Clamped
              (128 + 2 * (real (px ! (4 * p + c)) - real (?before ! (4 * p + c - 4)))))" .
  have prev: "?out ! (4 * (p - 1) + c) = ?before ! (4 * p + c - 4)" if "p mod w \<noteq> 0"
  proof -
    from that have "0 < p" by (cases p) simp_all
    then have idx: "4 * (p - 1) + c = 4 * p + c - 4" by simp
    have "embossN w (w * h) px ! (4 * p + c - 4) = ?before ! (4 * p + c - 4)"
      using assms(3,4) \<open>0 < p\<close> by (intro embossN_stable) simp_all
    then show ?thesis by (simp only: out idx)
  qed
  have "?out ! (4 * p + 3) = embossN w (Suc p) px ! (4 * p + 3)"
    unfolding out using Sp by (intro embossN_stable) simp_all
  also have "\<dots> = ?before ! (4 * p + 3)"
    by (simp add: embossN_Suc embossStep_other)
  also have "\<dots> = px ! (4 * p + 3)"
    by (simp add: embossN_ge)
  finally have alpha: "?out ! (4 * p + 3) = px ! (4 * p + 3)" .
  from colour prev alpha show ?thesis by simp
qed

text \<open>
  C5, as far as the code follows it. On a buffer of \<open>w * h\<close> pixels the emboss stage
  leaves the first pixel of every row and every alpha byte as they were, and the second
  pixel of every row gets, per colour channel \<open>c\<close>, the value \<open>128 + 2 * (cur - prev)\<close>
  clamped to 0..255, where \<open>cur\<close> and \<open>prev\<close> are the input values of the pixel and of
  its left neighbour.
\<close>

theorem emboss_row_start:
  assumes "0 < w" and "length px = 4 * (w * h)" and "p < w * h" and "c < 3"
  shows "(p mod w = 0 \<longrightarrow> emboss w px ! (4 * p + c) = px ! (4 * p + c))
       \<and> (p mod w = 1 \<longrightarrow>
            emboss w px ! (4 * p + c) =
              toUint8Clamped
                (128 + 2 * (real (px ! (4 * p + c)) - real (px ! (4 * (p - 1) + c)))))
       \<and> emboss w px ! (4 * p + 3) = px ! (4 * p + 3)"
proof -
  note here = emboss_recurrence [OF assms]
  have second: "emboss w px ! (4 * p + c) =
      toUint8Clamped (128 + 2 * (real (px ! (4 * p + c)) - real (px ! (4 * (p - 1) + c))))"
    if one: "p mod w = 1"
  proof -
    have "p = w * (p div w) + 1" using one mult_div_mod_eq [of w p] by simp
    then have left: "(p - 1) mod w = 0" "p - 1 < w * h" using assms(3)
      by (metis add_diff_cancel_right' mod_mult_self1_is_0, simp)
    have "emboss w px ! (4 * (p - 1) + c) = px ! (4 * (p - 1) + c)"
      using emboss_recurrence [OF assms(1,2) left(2) assms(4)] left(1) by simp
    then show ?thesis using here one by simp
  qed
  from here second show ?thesis by simp
qed

text \<open>The theorem at the first and the second pixel of a row of three grey pixels 100,
  110, 120: the first stays 100, the second becomes \<open>128 + 2 * (110 - 100) = 148\<close>.\<close>

theorem emboss_row_start_witness:
  "(0::nat) < 3 \<and> length [100, 100, 100, 255, 110, 110, 110, 255, 120, 120, 120, 255 :: nat] = 4 * (3 * 1)
   \<and> (1::nat) < 3 * 1 \<and> (0::nat) < 3 \<and> (0::nat) mod 3 = 0 \<and> (1::nat) mod 3 = 1
   \<and> emboss 3 [100, 100, 100, 255, 110, 110, 110, 255, 120, 120, 120, 255] ! (4 * 0 + 0) = 100
   \<and> emboss 3 [100, 100, 100, 255, 110, 110, 110, 255, 120, 120, 120, 255] ! (4 * 1 + 0) = 148
   \<and> emboss 3 [100, 100, 100, 255, 110, 110, 110, 255, 120, 120, 120, 255] ! (4 * 1 + 3) = 255"
  using emboss_row_start [of 3 "[100, 100, 100, 255, 110, 110, 110, 255, 120, 120, 120, 255]" 1 0 0]
    emboss_row_start [of 3 "[100, 100, 100, 255, 110, 110, 110, 255, 120, 120, 120, 255]" 1 1 0]
  by (simp add: toUint8Clamped_def)

text \<open>
  C5 as the specification words it fails. On the row 0, 255 the second pixel should
  become \<open>128 + 2 * (255 - 0) = 638\<close> and becomes 255: \<open>pixels\<close> is a
  \<open>Uint8ClampedArray\<close>, which holds bytes. And on the row 100, 110, 120 the third pixel
  should become \<open>128 + 2 * (120 - 110) = 148\<close> and becomes 72: the loop reads
  \<open>pixels[i - 4]\<close> after it has overwritten it with 148.
\<close>

theorem emboss_not_of_input:
  "int (emboss 2 [0, 0, 0, 255, 255, 255, 255, 255] ! 4)
     \<noteq> embossOfInput 2 [0, 0, 0, 255, 255, 255, 255, 255] 4
   \<and> int (emboss 3 [100, 100, 100, 255, 110, 110, 110, 255, 120, 120, 120, 255] ! 8)
     \<noteq> embossOfInput 3 [100, 100, 100, 255, 110, 110, 110, 255, 120, 120, 120, 255] 8"
  by (simp add: emboss_def pixelLoop_def pixelOffsets_def embossStep_def toUint8Clamped_def
      embossOfInput_def upt_rec)

section \<open>Loops that fill a plane, loops that accumulate\<close>

lemma fold_invariant:
  assumes "P s" and "\<And>x s. P s \<Longrightarrow> P (f x s)"
  shows "P (fold f xs s)"
  using assms(1) by (induction xs arbitrary: s) (simp_all add: assms(2))

lemma upto_around_zero: "0 \<le> n \<Longrightarrow> [- n..n] = [- n..- 1] @ 0 # [1..n]"
  using upto_split3 [of "- n" 0 n] by simp

lemma kernel_fold:
  assumes P1: "\<And>dy dx s. P1 s \<Longrightarrow> P1 (step dy dx s)"
    and P2: "\<And>dy dx s. P2 s \<Longrightarrow> P2 (step dy dx s)"
    and centre: "\<And>s. P1 s \<Longrightarrow> P2 (step 0 0 s)"
    and init: "P1 s0" and n: "0 \<le> (n::int)"
  shows "P2 (fold (\<lambda>dy acc. fold (step dy) [- n..n] acc) [- n..n] s0)"
proof -
  let ?row = "\<lambda>dy acc. fold (step dy) [- n..n] acc"
  have row1: "P1 (?row dy s)" if "P1 s" for dy s
    using that by (rule fold_invariant) (rule P1)
  have row2: "P2 (?row dy s)" if "P2 s" for dy s
    using that by (rule fold_invariant) (rule P2)
  have row0: "P2 (?row 0 s)" if "P1 s" for s
  proof -
    have "P1 (fold (step 0) [- n..- 1] s)"
      using that by (rule fold_invariant) (rule P1)
    then have "P2 (step 0 0 (fold (step 0) [- n..- 1] s))" by (rule centre)
    then have "P2 (fold (step 0) [1..n] (step 0 0 (fold (step 0) [- n..- 1] s)))"
      by (rule fold_invariant) (rule P2)
    then show ?thesis by (simp add: upto_around_zero [OF n])
  qed
  have "P1 (fold ?row [- n..- 1] s0)"
    using init by (rule fold_invariant) (rule row1)
  then have "P2 (?row 0 (fold ?row [- n..- 1] s0))" by (rule row0)
  then have "P2 (fold ?row [1..n] (?row 0 (fold ?row [- n..- 1] s0)))"
    by (rule fold_invariant) (rule row2)
  then show ?thesis by (simp add: upto_around_zero [OF n])
qed

lemma grid_index_bounds:
  assumes "0 \<le> yy" "yy < int h" "0 \<le> xx" "xx < int w"
  shows "0 \<le> yy * int w + xx" and "nat (yy * int w + xx) < w * h"
proof -
  show "0 \<le> yy * int w + xx" using assms by simp
  have "yy * int w + xx < yy * int w + int w" using assms by simp
  also have "\<dots> = (yy + 1) * int w" by (simp add: algebra_simps)
  also have "\<dots> \<le> int h * int w"
    using assms by (intro mult_right_mono) simp_all
  finally show "nat (yy * int w + xx) < w * h"
    using assms by (simp add: nat_less_iff mult.commute)
qed

lemma toUint8_byte: "v < 256 \<Longrightarrow> toUint8 (mathRound (real v)) = v"
proof -
  have "\<lfloor>real v + 1 / 2\<rfloor> = int v" by linarith
  then show "v < 256 \<Longrightarrow> toUint8 (mathRound (real v)) = v"
    by (simp add: toUint8_def mathRound_def)
qed

lemma smoothBody_uniform:
  "smoothBody (replicate (w * h) v) w h x y dy dx (s, c) =
     (if 0 \<le> int x + dx \<and> int x + dx < int w \<and> 0 \<le> int y + dy \<and> int y + dy < int h
      then (s + real v, c + 1) else (s, c))"
  using grid_index_bounds(2) [of "int y + dy" h "int x + dx" w]
  by (simp add: smoothBody_def Let_def)

lemma featherBody_uniform:
  "featherBody (replicate (w * h) v) w h n x y dy dx (s, c) =
     (if 0 \<le> int x + dx \<and> int x + dx < int w \<and> 0 \<le> int y + dy \<and> int y + dy < int h
         \<and> sqrt (real_of_int (dx * dx + dy * dy)) \<le> real n
      then (s + real v * (1 - sqrt (real_of_int (dx * dx + dy * dy)) / real n),
            c + (1 - sqrt (real_of_int (dx * dx + dy * dy)) / real n))
      else (s, c))"
  using grid_index_bounds(2) [of "int y + dy" h "int x + dx" w]
  by (simp add: featherBody_def Let_def)

lemma smoothAt_uniform:
  assumes "x < w" "y < h"
  shows "\<exists>c. 1 \<le> c \<and> smoothAt (replicate (w * h) v) w h x y = (c * real v, c)"
proof -
  let ?P1 = "\<lambda>(s, c). s = c * real v \<and> (0::real) \<le> c"
  let ?P2 = "\<lambda>(s, c). s = c * real v \<and> (1::real) \<le> c"
  let ?step = "smoothBody (replicate (w * h) v) w h x y"
  have "?P2 (fold (\<lambda>dy acc. fold (?step dy) [- 1..1] acc) [- 1..1] (0, 0))"
  proof (rule kernel_fold [where ?P1.0 = ?P1])
    show "?P1 (?step dy dx s)" if "?P1 s" for dy dx s
      using that by (cases s) (simp add: smoothBody_uniform distrib_right)
    show "?P2 (?step dy dx s)" if "?P2 s" for dy dx s
      using that by (cases s) (simp add: smoothBody_uniform distrib_right)
    show "?P2 (?step 0 0 s)" if "?P1 s" for s
      using that assms by (cases s) (simp add: smoothBody_uniform distrib_right)
  qed simp_all
  then show ?thesis
    by (auto simp add: smoothAt_def Let_def)
qed

lemma featherBody_weight:
  assumes "0 < n"
  shows "\<exists>wt. 0 \<le> wt \<and> featherBody (replicate (w * h) v) w h n x y dy dx (s, c) =
           (s + real v * wt, c + wt)"
proof (cases "0 \<le> int x + dx \<and> int x + dx < int w \<and> 0 \<le> int y + dy \<and> int y + dy < int h
         \<and> sqrt (real_of_int (dx * dx + dy * dy)) \<le> real n")
  case True
  let ?wt = "1 - sqrt (real_of_int (dx * dx + dy * dy)) / real n"
  have "0 \<le> ?wt" using True assms by (simp add: divide_le_eq)
  moreover have "featherBody (replicate (w * h) v) w h n x y dy dx (s, c) =
      (s + real v * ?wt, c + ?wt)"
    using True by (simp only: featherBody_uniform simp_thms if_True)
  ultimately show ?thesis by blast
next
  case False
  then have "featherBody (replicate (w * h) v) w h n x y dy dx (s, c) = (s + real v * 0, c + 0)"
    by (simp only: featherBody_uniform if_False simp_thms) simp
  then show ?thesis by (intro exI [of _ 0]) simp
qed

lemma featherBody_centre:
  assumes "x < w" "y < h" "0 < n"
  shows "featherBody (replicate (w * h) v) w h n x y 0 0 (s, c) = (s + real v, c + 1)"
  using assms by (simp add: featherBody_uniform)

lemma featherAt_uniform:
  assumes "x < w" "y < h" "0 < n"
  shows "\<exists>c. 1 \<le> c \<and> featherAt (replicate (w * h) v) w h n x y = (c * real v, c)"
proof -
  let ?P1 = "\<lambda>(s, c). s = c * real v \<and> (0::real) \<le> c"
  let ?P2 = "\<lambda>(s, c). s = c * real v \<and> (1::real) \<le> c"
  let ?step = "featherBody (replicate (w * h) v) w h n x y"
  have "?P2 (fold (\<lambda>dy acc. fold (?step dy) [- int n..int n] acc) [- int n..int n] (0, 0))"
  proof (rule kernel_fold [where ?P1.0 = ?P1])
    show "?P1 (?step dy dx s)" if "?P1 s" for dy dx s
    proof (cases s)
      case (Pair a c)
      obtain wt where "0 \<le> wt" "?step dy dx (a, c) = (a + real v * wt, c + wt)"
        using featherBody_weight [OF assms(3)] by blast
      then show ?thesis using that Pair by (simp add: distrib_right)
    qed
    show "?P2 (?step dy dx s)" if "?P2 s" for dy dx s
    proof (cases s)
      case (Pair a c)
      obtain wt where "0 \<le> wt" "?step dy dx (a, c) = (a + real v * wt, c + wt)"
        using featherBody_weight [OF assms(3)] by blast
      then show ?thesis using that Pair by (simp add: distrib_right)
    qed
    show "?P2 (?step 0 0 s)" if "?P1 s" for s
      using that by (cases s) (simp add: featherBody_centre [OF assms] distrib_right)
  qed simp_all
  then show ?thesis
    by (auto simp add: featherAt_def)
qed

lemma length_fold_update_row [simp]:
  "length (fold (\<lambda>x t. t[k x := g x]) xs t) = length t"
  by (induction xs arbitrary: t) simp_all

lemma length_fold_update_grid [simp]:
  "length (fold (\<lambda>y t. fold (\<lambda>x t. t[k x y := g x y]) xs t) ys t) = length t"
  by (induction ys arbitrary: t) simp_all

lemma fold_update_row:
  assumes "j < length t"
  shows "fold (\<lambda>x t. t[k + x := g x]) [a..<b] t ! j =
           (if k + a \<le> j \<and> j < k + b then g (j - k) else t ! j)"
proof (induction b)
  case 0
  then show ?case by auto
next
  case (Suc b)
  show ?case
  proof (cases "a \<le> b")
    case True
    let ?p = "fold (\<lambda>x t. t[k + x := g x]) [a..<b] t"
    have unfold: "fold (\<lambda>x t. t[k + x := g x]) [a..<Suc b] t = ?p[k + b := g b]"
      using True by simp
    show ?thesis
    proof (cases "j = k + b")
      case True
      then have "?p[k + b := g b] ! j = g (j - k)"
        using assms by simp
      then show ?thesis using True \<open>a \<le> b\<close> by (simp only: unfold) simp
    next
      case False
      then have "?p[k + b := g b] ! j = ?p ! j" by simp
      then show ?thesis using False Suc by (simp only: unfold) auto
    qed
  next
    case False
    then show ?thesis by auto
  qed
qed

lemma row_of_index:
  assumes "b \<le> (w::nat)"
  shows "(y * w + a \<le> j \<and> j < y * w + b) \<longleftrightarrow> (j div w = y \<and> a \<le> j mod w \<and> j mod w < b)"
proof
  assume l: "y * w + a \<le> j \<and> j < y * w + b"
  then have "y * w \<le> j" "j < y * w + w" using assms by simp_all
  then have d: "j div w = y"
    by (metis add.commute div_nat_eqI mult.commute mult_Suc_right)
  then have "j mod w = j - y * w"
    by (metis add_diff_cancel_left' mult.commute mult_div_mod_eq)
  with l d show "j div w = y \<and> a \<le> j mod w \<and> j mod w < b" by auto
next
  assume r: "j div w = y \<and> a \<le> j mod w \<and> j mod w < b"
  then have "j = y * w + j mod w" by (metis div_mult_mod_eq)
  with r show "y * w + a \<le> j \<and> j < y * w + b" by linarith
qed

lemma fold_update_grid:
  assumes "j < length t" and "b \<le> w"
  shows "fold (\<lambda>y t. fold (\<lambda>x t. t[y * w + x := g x y]) [a..<b] t) [c..<d] t ! j =
           (if c \<le> j div w \<and> j div w < d \<and> a \<le> j mod w \<and> j mod w < b
            then g (j mod w) (j div w) else t ! j)"
proof (induction d)
  case 0
  then show ?case by auto
next
  case (Suc d)
  show ?case
  proof (cases "c \<le> d")
    case True
    let ?prev = "fold (\<lambda>y t. fold (\<lambda>x t. t[y * w + x := g x y]) [a..<b] t) [c..<d] t"
    have len: "j < length ?prev" using assms(1) by simp
    have "fold (\<lambda>x t. t[d * w + x := g x d]) [a..<b] ?prev ! j =
        (if d * w + a \<le> j \<and> j < d * w + b then g (j - d * w) d else ?prev ! j)"
      using len by (rule fold_update_row)
    moreover have "j - d * w = j mod w" if "j div w = d"
      using that by (metis add_diff_cancel_left' mult.commute mult_div_mod_eq)
    ultimately show ?thesis
      using True Suc by (auto simp add: row_of_index [OF assms(2)])
  next
    case False
    then show ?thesis by auto
  qed
qed

lemma copyBack_eq:
  assumes "length temp = length m"
  shows "copyBack temp m = temp"
proof (rule nth_equalityI)
  show "length (copyBack temp m) = length temp"
    using assms by (simp add: copyBack_def)
next
  fix j assume "j < length (copyBack temp m)"
  then have j: "j < length m" by (simp add: copyBack_def)
  have "fold (\<lambda>x t. t[0 + x := temp ! x]) [0..<length m] m ! j
      = (if 0 + 0 \<le> j \<and> j < 0 + length m then temp ! (j - 0) else m ! j)"
    using j by (rule fold_update_row)
  then show "copyBack temp m ! j = temp ! j"
    using j by (simp add: copyBack_def)
qed

lemma index_in_grid: "0 < w \<Longrightarrow> j < w * h \<Longrightarrow> j div w < h \<and> j mod w < (w::nat)"
  by (simp add: less_mult_imp_div_less mult.commute)

lemma smoothMask_uniform_eq:
  assumes "v < 256"
  shows "smoothMask (replicate (w * h) v) w h = replicate (w * h) v"
proof -
  let ?m = "replicate (w * h) v"
  let ?g = "\<lambda>x y. toUint8 (mathRound (fst (smoothAt ?m w h x y) / snd (smoothAt ?m w h x y)))"
  let ?temp = "fold (\<lambda>y t. fold (\<lambda>x t. t[y * w + x := ?g x y]) [0..<w] t) [0..<h]
                 (replicate (length ?m) 0)"
  have g: "?g x y = v" if xy: "x < w" "y < h" for x y
  proof -
    obtain c where "1 \<le> c" "smoothAt ?m w h x y = (c * real v, c)"
      using smoothAt_uniform [OF xy] by blast
    then show ?thesis by (simp add: toUint8_byte [OF assms])
  qed
  have "?temp = ?m"
  proof (rule nth_equalityI)
    show "length ?temp = length ?m" by simp
  next
    fix j assume "j < length ?temp"
    then have j: "j < w * h" by simp
    then have "0 < w" by (cases w) simp_all
    with j have jj: "j div w < h" "j mod w < w" using index_in_grid by blast+
    have "?temp ! j = ?g (j mod w) (j div w)"
      using j jj by (subst fold_update_grid) simp_all
    then show "?temp ! j = ?m ! j" using j jj by (simp add: g)
  qed
  moreover have "smoothMask ?m w h = copyBack ?temp ?m"
    by (simp add: smoothMask_def Let_def split_def)
  ultimately show ?thesis by (simp add: copyBack_eq)
qed

lemma featherMask_uniform_eq:
  assumes "v < 256" "0 < n"
  shows "featherMask (replicate (w * h) v) w h n = replicate (w * h) v"
proof -
  let ?m = "replicate (w * h) v"
  let ?g = "\<lambda>x y. if n = 0 then 0
             else toUint8 (mathRound (fst (featherAt ?m w h n x y) / snd (featherAt ?m w h n x y)))"
  let ?temp = "fold (\<lambda>y t. fold (\<lambda>x t. t[y * w + x := ?g x y]) [0..<w] t) [0..<h]
                 (replicate (length ?m) 0)"
  have g: "?g x y = v" if xy: "x < w" "y < h" for x y
  proof -
    obtain c where "1 \<le> c" "featherAt ?m w h n x y = (c * real v, c)"
      using featherAt_uniform [OF xy assms(2)] by blast
    then show ?thesis using assms(2) by (simp add: toUint8_byte [OF assms(1)])
  qed
  have "?temp = ?m"
  proof (rule nth_equalityI)
    show "length ?temp = length ?m" by simp
  next
    fix j assume "j < length ?temp"
    then have j: "j < w * h" by simp
    then have "0 < w" by (cases w) simp_all
    with j have jj: "j div w < h" "j mod w < w" using index_in_grid by blast+
    have "?temp ! j = ?g (j mod w) (j div w)"
      using j jj by (subst fold_update_grid) simp_all
    then show "?temp ! j = ?m ! j" using j jj by (simp add: g)
  qed
  moreover have "featherMask ?m w h n = copyBack ?temp ?m"
    by (simp add: featherMask_def Let_def split_def)
  ultimately show ?thesis by (simp add: copyBack_eq)
qed

section \<open>The Sobel pass and solid buffers\<close>

lemma upto_m1_1: "[-1..1::int] = [-1, 0, 1]"
  by (simp add: upto.simps)

lemma grid_index_nat: "x < w \<Longrightarrow> y < h \<Longrightarrow> y * w + x < w * (h::nat)"
  using grid_index_bounds(2) [of "int y" h "int x" w]
  by (simp add: nat_less_iff) (metis (no_types) of_nat_add of_nat_less_iff of_nat_mult)

lemma sobel_nth:
  assumes "j < w * h"
  shows "applySobelOperator data w h ! j =
           (if 1 \<le> j div w \<and> j div w < h - 1 \<and> 1 \<le> j mod w \<and> j mod w < w - 1
            then toUint8 (magnitude data w (j mod w) (j div w)) else 0)"
proof -
  have "fold (\<lambda>y t. fold (\<lambda>x t. t[y * w + x := toUint8 (magnitude data w x y)]) [1..<w - 1] t)
          [1..<h - 1] (replicate (w * h) 0) ! j =
        (if 1 \<le> j div w \<and> j div w < h - 1 \<and> 1 \<le> j mod w \<and> j mod w < w - 1
         then toUint8 (magnitude data w (j mod w) (j div w)) else replicate (w * h) 0 ! j)"
    using assms by (intro fold_update_grid) simp_all
  then show ?thesis using assms by (simp add: applySobelOperator_def)
qed

lemma sobel_at:
  assumes "x < w" "y < h"
  shows "applySobelOperator data w h ! (y * w + x) =
           (if 1 \<le> x \<and> x < w - 1 \<and> 1 \<le> y \<and> y < h - 1
            then toUint8 (magnitude data w x y) else 0)"
proof -
  have dm: "(y * w + x) div w = y" "(y * w + x) mod w = x"
    using assms(1) by simp_all
  show ?thesis
    using sobel_nth [OF grid_index_nat [OF assms], of data] by (simp only: dm) auto
qed

lemma length_applySobelOperator [simp]: "length (applySobelOperator data w h) = w * h"
  by (simp add: applySobelOperator_def)

lemma solid_Suc: "solid (Suc n) r g b a = [r, g, b, a] @ solid n r g b a"
  by (simp add: solid_def)

lemma length_solid [simp]: "length (solid n r g b a) = 4 * n"
  by (induction n) (simp_all add: solid_Suc, simp add: solid_def)

lemma solid_nth:
  "q < n \<Longrightarrow> c < 4 \<Longrightarrow> solid n r g b a ! (4 * q + c) = [r, g, b, a] ! c"
proof (induction n arbitrary: q)
  case 0
  then show ?case by simp
next
  case (Suc n)
  show ?case
  proof (cases q)
    case 0
    have "([r, g, b, a] @ solid n r g b a) ! c = [r, g, b, a] ! c"
      using Suc.prems(2) by (simp only: nth_append) simp
    then show ?thesis using 0 by (simp only: solid_Suc) simp
  next
    case (Suc q')
    then have "solid (Suc n) r g b a ! (4 * q + c) = solid n r g b a ! (4 * q' + c)"
      by (simp add: solid_Suc nth_append)
    then show ?thesis using Suc.IH [of q'] Suc.prems Suc by simp
  qed
qed

lemma solid_red_grid:
  assumes "0 \<le> yy" "yy < int h" "0 \<le> xx" "xx < int w"
  shows "solid (w * h) r g b a ! nat ((yy * int w + xx) * 4) = r"
proof -
  have "nat ((yy * int w + xx) * 4) = 4 * nat (yy * int w + xx) + 0"
    using grid_index_bounds(1) [OF assms] by (simp add: nat_mult_distrib)
  then show ?thesis
    using solid_nth [of "nat (yy * int w + xx)" "w * h" 0 r g b a] grid_index_bounds(2) [OF assms]
    by simp
qed

lemma kernelSum_expand:
  "kernelSum ws data w x y =
     redAt data w x y (-1) (-1) * ws ! 0 + redAt data w x y (-1) 0 * ws ! 1
     + redAt data w x y (-1) 1 * ws ! 2 + redAt data w x y 0 (-1) * ws ! 3
     + redAt data w x y 0 0 * ws ! 4 + redAt data w x y 0 1 * ws ! 5
     + redAt data w x y 1 (-1) * ws ! 6 + redAt data w x y 1 0 * ws ! 7
     + redAt data w x y 1 1 * ws ! 8"
  by (simp add: kernelSum_def upto_m1_1 redAt_def)

lemma redAt_solid:
  assumes "1 \<le> x" "x < w - 1" "1 \<le> y" "y < h - 1" "ky \<in> {-1, 0, 1}" "kx \<in> {-1, 0, 1}"
  shows "redAt (solid (w * h) r g b a) w x y ky kx = int r"
  unfolding redAt_def using assms by (subst solid_red_grid) auto

lemma kernelSum_solid:
  assumes "1 \<le> x" "x < w - 1" "1 \<le> y" "y < h - 1"
  shows "kernelSum sobelX (solid (w * h) r g b a) w x y = 0"
    and "kernelSum sobelY (solid (w * h) r g b a) w x y = 0"
  by (simp_all add: kernelSum_expand redAt_solid [OF assms] sobelX_def sobelY_def)

lemma sobel_solid: "applySobelOperator (solid (w * h) r g b a) w h = replicate (w * h) 0"
proof (rule nth_equalityI)
  show "length (applySobelOperator (solid (w * h) r g b a) w h) = length (replicate (w * h) (0::nat))"
    by simp
next
  fix j assume "j < length (applySobelOperator (solid (w * h) r g b a) w h)"
  then have j: "j < w * h" by simp
  then have "0 < w" by (cases w) simp_all
  with j have jj: "j div w < h" "j mod w < w" using index_in_grid by blast+
  show "applySobelOperator (solid (w * h) r g b a) w h ! j = replicate (w * h) 0 ! j"
    using j by (simp add: sobel_nth magnitude_def kernelSum_solid toUint8_def)
qed

section \<open>Loops over the pixels of a buffer\<close>

lemma pixelLoop_loopN: "pixelLoop body data = loopN body ((length data + 3) div 4) data"
  by (simp add: pixelLoop_def pixelOffsets_def loopN_def)

lemma loopN_Suc: "loopN body (Suc n) data = body (4 * n) (loopN body n data)"
  by (simp add: loopN_def)

lemma loopN_length:
  assumes "\<And>i d. length (body i d) = length d"
  shows "length (loopN body n data) = length data"
  by (induction n) (simp add: loopN_def, simp add: loopN_Suc assms)

lemma loopN_ge:
  assumes "\<And>i d j. j < i \<or> i + 4 \<le> j \<Longrightarrow> body i d ! j = d ! j" and "4 * n \<le> j"
  shows "loopN body n data ! j = data ! j"
  using assms(2)
proof (induction n)
  case 0
  then show ?case by (simp add: loopN_def)
next
  case (Suc n)
  then show ?case by (simp add: loopN_Suc assms(1))
qed

lemma loopN_stable:
  assumes "\<And>i d j. j < i \<or> i + 4 \<le> j \<Longrightarrow> body i d ! j = d ! j" and "n \<le> m" and "j < 4 * n"
  shows "loopN body m data ! j = loopN body n data ! j"
  using assms(2,3)
proof (induction m rule: dec_induct)
  case base
  then show ?case by simp
next
  case (step m)
  then show ?case by (simp add: loopN_Suc assms(1))
qed

lemma pixelLoop_local:
  assumes len: "\<And>i d. length (body i d) = length d"
    and frame: "\<And>i d j. j < i \<or> i + 4 \<le> j \<Longrightarrow> body i d ! j = d ! j"
    and local: "\<And>i d d'. d ! i = d' ! i \<Longrightarrow> d ! (i + 1) = d' ! (i + 1) \<Longrightarrow>
        d ! (i + 2) = d' ! (i + 2) \<Longrightarrow> d ! (i + 3) = d' ! (i + 3) \<Longrightarrow> length d = length d' \<Longrightarrow>
        i + 3 < length d \<Longrightarrow> k < 4 \<Longrightarrow> body i d ! (i + k) = body i d' ! (i + k)"
    and p: "4 * p + 3 < length data" and k: "k < 4"
  shows "pixelLoop body data ! (4 * p + k) = body (4 * p) data ! (4 * p + k)"
proof -
  let ?N = "(length data + 3) div 4"
  let ?before = "loopN body p data"
  have "Suc p \<le> ?N" using p by simp
  then have "loopN body ?N data ! (4 * p + k) = loopN body (Suc p) data ! (4 * p + k)"
    using k by (intro loopN_stable frame) simp_all
  also have "\<dots> = body (4 * p) ?before ! (4 * p + k)"
    by (simp add: loopN_Suc)
  also have "\<dots> = body (4 * p) data ! (4 * p + k)"
  proof (rule local)
    show "?before ! (4 * p) = data ! (4 * p)" by (intro loopN_ge frame) simp_all
    show "?before ! (4 * p + 1) = data ! (4 * p + 1)" by (intro loopN_ge frame) simp_all
    show "?before ! (4 * p + 2) = data ! (4 * p + 2)" by (intro loopN_ge frame) simp_all
    show "?before ! (4 * p + 3) = data ! (4 * p + 3)" by (intro loopN_ge frame) simp_all
    show "length ?before = length data" by (rule loopN_length) (rule len)
    show "4 * p + 3 < length ?before" using p by (simp add: loopN_length len)
    show "k < 4" by (rule k)
  qed
  finally show ?thesis by (simp add: pixelLoop_loopN)
qed

lemma pixelLoop_length:
  assumes "\<And>i d. length (body i d) = length d"
  shows "length (pixelLoop body data) = length data"
  by (simp add: pixelLoop_loopN loopN_length assms)

lemma lt4E:
  assumes "k < (4::nat)"
  obtains "k = 0" | "k = 1" | "k = 2" | "k = 3"
  using assms by linarith


lemma length_applyMask [simp]: "length (applyMask m data) = length data"
  unfolding applyMask_def by (rule pixelLoop_length) (simp add: Let_def)

lemma applyMask_nth:
  assumes "4 * p + 3 < length data" "k < 4"
  shows "applyMask m data ! (4 * p + k) =
     (if k = 3 then (if p < length m then m ! p else 0) else data ! (4 * p + k))"
proof -
  let ?body = "\<lambda>i data. (let idx = i div 4; alpha = (if idx < length m then m ! idx else 0)
                 in data[i + 3 := alpha])"
  have "pixelLoop ?body data ! (4 * p + k) = ?body (4 * p) data ! (4 * p + k)"
    using assms by (intro pixelLoop_local) (auto simp add: Let_def elim!: lt4E)
  then show ?thesis using assms by (simp add: applyMask_def Let_def nth_list_update)
qed


lemma length_classifyStep [simp]: "length (classifyStep data sd w th tol i m) = length m"
  by (simp add: classifyStep_def Let_def)

lemma length_fold_classifyStep [simp]:
  "length (fold (classifyStep data sd w th tol) xs m) = length m"
  by (induction xs arbitrary: m) simp_all

lemma length_classify [simp]: "length (classify data w h th tol) = w * h"
  by (simp add: classify_def)

lemma length_copyBack [simp]: "length (copyBack temp m) = length m"
  unfolding copyBack_def by (rule length_fold_update_row)

lemma length_smoothMask [simp]: "length (smoothMask m w h) = length m"
  by (simp add: smoothMask_def Let_def)

lemma length_featherMask [simp]: "length (featherMask m w h n) = length m"
  by (simp add: featherMask_def Let_def)

lemma length_smooth_passes [simp]: "length (((\<lambda>m. smoothMask m w h) ^^ n) m) = length m"
  by (induction n) simp_all

lemma length_deriveMask [simp]: "length (deriveMask s data w h) = w * h"
  by (simp add: deriveMask_def Let_def)

text \<open>
  C8. Background removal changes the alpha bytes only: on a buffer of \<open>w * h\<close> pixels,
  for every pixel \<open>p\<close> the R, G and B bytes of the result are those of the input and the
  alpha byte is the value of the derived mask at \<open>p\<close>; the buffer keeps its length.
\<close>

theorem removeBackground_alpha_only:
  assumes "length data = 4 * (w * h)" and "p < w * h"
  shows "removeBackground s data w h ! (4 * p) = data ! (4 * p)
       \<and> removeBackground s data w h ! (4 * p + 1) = data ! (4 * p + 1)
       \<and> removeBackground s data w h ! (4 * p + 2) = data ! (4 * p + 2)
       \<and> removeBackground s data w h ! (4 * p + 3) = deriveMask s data w h ! p
       \<and> length (removeBackground s data w h) = length data"
proof -
  have p: "4 * p + 3 < length data" using assms by simp
  show ?thesis
    using applyMask_nth [OF p, of 0 "deriveMask s data w h"]
      applyMask_nth [OF p, of 1 "deriveMask s data w h"]
      applyMask_nth [OF p, of 2 "deriveMask s data w h"]
      applyMask_nth [OF p, of 3 "deriveMask s data w h"] assms(2)
    by (simp add: removeBackground_def)
qed

text \<open>The theorem at the one pixel of a 1 by 1 buffer, with the default sliders.\<close>

theorem removeBackground_alpha_only_witness:
  "length [10, 20, 30, 40 :: nat] = 4 * (1 * 1) \<and> (0::nat) < 1 * 1
   \<and> removeBackground \<lparr>threshold = 20, tolerance = 30, smoothing = 1, featherSize = 2\<rparr>
        [10, 20, 30, 40] 1 1 ! (4 * 0) = [10, 20, 30, 40] ! (4 * 0)
   \<and> removeBackground \<lparr>threshold = 20, tolerance = 30, smoothing = 1, featherSize = 2\<rparr>
        [10, 20, 30, 40] 1 1 ! (4 * 0 + 1) = [10, 20, 30, 40] ! (4 * 0 + 1)
   \<and> removeBackground \<lparr>threshold = 20, tolerance = 30, smoothing = 1, featherSize = 2\<rparr>
        [10, 20, 30, 40] 1 1 ! (4 * 0 + 2) = [10, 20, 30, 40] ! (4 * 0 + 2)
   \<and> removeBackground \<lparr>threshold = 20, tolerance = 30, smoothing = 1, featherSize = 2\<rparr>
        [10, 20, 30, 40] 1 1 ! (4 * 0 + 3) =
      deriveMask \<lparr>threshold = 20, tolerance = 30, smoothing = 1, featherSize = 2\<rparr>
        [10, 20, 30, 40] 1 1 ! 0"
  using removeBackground_alpha_only [of "[10, 20, 30, 40]" 1 1 0
      "\<lparr>threshold = 20, tolerance = 30, smoothing = 1, featherSize = 2\<rparr>"]
  by simp

section \<open>Segmentation of a solid buffer\<close>

lemma pixelOffsets_solid: "pixelOffsets (solid n r g b a) = map (\<lambda>p. 4 * p) [0..<n]"
proof -
  have "(4 * n + 3) div 4 = n" by simp
  then show ?thesis by (simp add: pixelOffsets_def)
qed

lemma classifyStep_solid:
  assumes "p < w * h"
  shows "classifyStep (solid (w * h) r g b a) (replicate (w * h) 0) w th tol (4 * p) m =
           m[0 + p := (if 0 > th \<or> colorDiff r g b > tol then 255 else 0)]"
proof -
  have w: "w \<noteq> 0" using assms by (cases w) simp_all
  have idx: "p div w * w + p mod w = p" by simp
  have px: "solid (w * h) r g b a ! (4 * p) = r" "solid (w * h) r g b a ! Suc (4 * p) = g"
    "solid (w * h) r g b a ! Suc (Suc (4 * p)) = b"
    using solid_nth [OF assms, of 0 r g b a] solid_nth [OF assms, of 1 r g b a]
      solid_nth [OF assms, of 2 r g b a] by simp_all
  show ?thesis
    using w assms by (simp add: classifyStep_def Let_def idx px del: div_mult_mod_eq)
qed

lemma classify_solid:
  "classify (solid (w * h) r g b a) w h th tol =
     replicate (w * h) (if 0 > th \<or> colorDiff r g b > tol then 255 else 0)"
proof -
  let ?V = "if 0 > th \<or> colorDiff r g b > tol then 255 else 0 :: nat"
  let ?step = "classifyStep (solid (w * h) r g b a) (replicate (w * h) 0) w th tol"
  have "fold ?step (map (\<lambda>p. 4 * p) [0..<w * h]) (replicate (w * h) 0)
      = fold (\<lambda>p m. m[0 + p := ?V]) [0..<w * h] (replicate (w * h) 0)"
    unfolding fold_map by (rule fold_cong) (simp_all add: classifyStep_solid fun_eq_iff)
  moreover have "fold (\<lambda>p m. m[0 + p := ?V]) [0..<w * h] (replicate (w * h) 0) = replicate (w * h) ?V"
  proof (rule nth_equalityI)
    show "length (fold (\<lambda>p m. m[0 + p := ?V]) [0..<w * h] (replicate (w * h) 0))
        = length (replicate (w * h) ?V)" by simp
  next
    fix j assume "j < length (fold (\<lambda>p m. m[0 + p := ?V]) [0..<w * h] (replicate (w * h) 0))"
    then have j: "j < w * h" by simp
    then have "fold (\<lambda>p m. m[0 + p := ?V]) [0..<w * h] (replicate (w * h) 0) ! j =
        (if 0 + 0 \<le> j \<and> j < 0 + w * h then ?V else replicate (w * h) 0 ! j)"
      by (intro fold_update_row) simp
    then show "fold (\<lambda>p m. m[0 + p := ?V]) [0..<w * h] (replicate (w * h) 0) ! j
        = replicate (w * h) ?V ! j"
      using j by simp
  qed
  ultimately show ?thesis
    by (simp add: classify_def sobel_solid pixelOffsets_solid)
qed

lemma smooth_passes_uniform:
  "v < 256 \<Longrightarrow> ((\<lambda>m. smoothMask m w h) ^^ n) (replicate (w * h) v) = replicate (w * h) v"
  by (induction n) (simp_all add: smoothMask_uniform_eq)

lemma refine_uniform:
  assumes "v < 256"
  shows "(let msk = replicate (w * h) v;
              msk = (if passes > 0 then ((\<lambda>msk. smoothMask msk w h) ^^ passes) msk else msk);
              msk = (if fsize > 0 then featherMask msk w h fsize else msk)
          in msk) = replicate (w * h) v"
  by (simp add: Let_def smooth_passes_uniform [OF assms] featherMask_uniform_eq [OF assms])

lemma deriveMask_solid:
  assumes "0 \<le> threshold s"
  shows "deriveMask s (solid (w * h) r g b a) w h =
     replicate (w * h) (if colorDiff r g b > tolerance s then 255 else 0)"
proof (cases "colorDiff r g b > tolerance s")
  case True
  then have "classify (solid (w * h) r g b a) w h (threshold s) (tolerance s) = replicate (w * h) 255"
    using assms by (simp add: classify_solid)
  then show ?thesis
    using True refine_uniform [of 255 w h "smoothing s" "featherSize s"]
    by (simp add: deriveMask_def)
next
  case False
  then have "classify (solid (w * h) r g b a) w h (threshold s) (tolerance s) = replicate (w * h) 0"
    using assms by (simp add: classify_solid)
  then show ?thesis
    using False refine_uniform [of 0 w h "smoothing s" "featherSize s"]
    by (simp add: deriveMask_def)
qed

text \<open>
  C7. On a solid buffer (every pixel \<open>(r, g, b, a)\<close>) with threshold 20 and tolerance 30
  the Sobel pass stores edge strength 0 at every pixel, the classification sees the one
  colour distance \<open>colorDiff r g b\<close> everywhere and gives the mask that is 255 everywhere
  or 0 everywhere; the box blur of \<open>smoothMask\<close> and the cone-weighted \<open>featherMask\<close>
  (called with a positive size) map the all-0 and the all-255 mask to themselves, so the
  derived mask is that uniform mask whatever the numbers of passes and the feather size.
\<close>

theorem solid_buffer_mask:
  assumes "0 < fsize"
  shows "applySobelOperator (solid (w * h) r g b a) w h = replicate (w * h) 0
       \<and> classify (solid (w * h) r g b a) w h 20 30 =
           replicate (w * h) (if colorDiff r g b > 30 then 255 else 0)
       \<and> smoothMask (replicate (w * h) 0) w h = replicate (w * h) 0
       \<and> smoothMask (replicate (w * h) 255) w h = replicate (w * h) 255
       \<and> featherMask (replicate (w * h) 0) w h fsize = replicate (w * h) 0
       \<and> featherMask (replicate (w * h) 255) w h fsize = replicate (w * h) 255
       \<and> deriveMask \<lparr>threshold = 20, tolerance = 30, smoothing = passes, featherSize = fsize\<rparr>
           (solid (w * h) r g b a) w h =
           replicate (w * h) (if colorDiff r g b > 30 then 255 else 0)"
  using assms
  by (simp add: sobel_solid classify_solid smoothMask_uniform_eq featherMask_uniform_eq
      deriveMask_solid)

text \<open>The theorem on the 10 by 10 buffer of the specification, feather size 2.\<close>

theorem solid_buffer_mask_witness:
  "(0::nat) < 2
   \<and> applySobelOperator (solid (10 * 10) 200 200 200 255) 10 10 = replicate (10 * 10) 0
   \<and> classify (solid (10 * 10) 200 200 200 255) 10 10 20 30 =
       replicate (10 * 10) (if colorDiff 200 200 200 > 30 then 255 else 0)
   \<and> smoothMask (replicate (10 * 10) 255) 10 10 = replicate (10 * 10) 255
   \<and> featherMask (replicate (10 * 10) 255) 10 10 2 = replicate (10 * 10) 255"
  using solid_buffer_mask [of 2 10 10 200 200 200 255 1] by simp

lemma magnitude_edgeExample: "magnitude edgeExample 3 1 1 = 256"
proof -
  have "kernelSum sobelX edgeExample 3 1 1 = 256"
    by (simp add: kernelSum_expand redAt_def sobelX_def edgeExample_def)
  moreover have "kernelSum sobelY edgeExample 3 1 1 = 0"
    by (simp add: kernelSum_expand redAt_def sobelY_def edgeExample_def)
  moreover have "sqrt (256 * 256) = (256::real)"
    using real_sqrt_abs2 [of 256] by simp
  ultimately show ?thesis by (simp add: magnitude_def)
qed

lemma sobel_edgeExample: "applySobelOperator edgeExample 3 3 = replicate 9 0"
  using magnitude_edgeExample
  by (simp add: applySobelOperator_def toUint8_def upt_rec numeral_eq_Suc)

lemma classify_edgeExample: "classify edgeExample 3 3 20 30 ! 4 = 0"
proof -
  have "colorDiff 255 255 255 = 0" by (simp add: colorDiff_def)
  then show ?thesis
    by (simp only: classify_def sobel_edgeExample)
      (simp add: edgeExample_def pixelOffsets_def classifyStep_def upt_rec)
qed

lemma toUint8_nonneg: "0 \<le> x \<Longrightarrow> toUint8 x = nat (\<lfloor>x\<rfloor> mod 256)"
  by (simp add: toUint8_def)

lemma magnitude_nonneg: "0 \<le> magnitude data w x y"
  by (simp add: magnitude_def Let_def)

text \<open>
  C9. The edge-strength plane is a \<open>Uint8Array\<close>: at every interior pixel it holds the
  gradient magnitude truncated and reduced modulo 256 (and 0 on the border). In
  \<open>edgeExample\<close> the centre pixel has magnitude 256, far above the threshold 20; the
  stored strength wraps to 0, the pixel is white, so the classification gives mask 0
  there, and with no smoothing and no feathering its alpha becomes 0: a strong edge is
  classified as background.
\<close>

theorem sobel_edge_wraps:
  "(x < w \<and> y < h \<longrightarrow>
      applySobelOperator data w h ! (y * w + x) =
        (if 1 \<le> x \<and> x < w - 1 \<and> 1 \<le> y \<and> y < h - 1
         then nat (\<lfloor>magnitude data w x y\<rfloor> mod 256) else 0))
   \<and> magnitude edgeExample 3 1 1 = 256
   \<and> applySobelOperator edgeExample 3 3 ! (1 * 3 + 1) = 0
   \<and> classify edgeExample 3 3 20 30 ! (1 * 3 + 1) = 0
   \<and> removeBackground \<lparr>threshold = 20, tolerance = 30, smoothing = 0, featherSize = 0\<rparr>
        edgeExample 3 3 ! (4 * (1 * 3 + 1) + 3) = 0"
proof -
  let ?s = "\<lparr>threshold = 20, tolerance = 30, smoothing = 0, featherSize = 0\<rparr>"
  have general: "x < w \<and> y < h \<longrightarrow>
      applySobelOperator data w h ! (y * w + x) =
        (if 1 \<le> x \<and> x < w - 1 \<and> 1 \<le> y \<and> y < h - 1
         then nat (\<lfloor>magnitude data w x y\<rfloor> mod 256) else 0)"
    using sobel_at [of x w y h data] by (simp add: toUint8_nonneg magnitude_nonneg)
  have stored: "applySobelOperator edgeExample 3 3 ! (1 * 3 + 1) = 0"
    by (simp add: sobel_edgeExample)
  have mask: "classify edgeExample 3 3 20 30 ! (1 * 3 + 1) = 0"
    using classify_edgeExample by simp
  have "4 * 4 + 3 < length edgeExample" by (simp add: edgeExample_def)
  then have "removeBackground ?s edgeExample 3 3 ! (4 * 4 + 3) = deriveMask ?s edgeExample 3 3 ! 4"
    using applyMask_nth [of 4 edgeExample 3 "deriveMask ?s edgeExample 3 3"]
    by (simp add: removeBackground_def)
  also have "\<dots> = 0"
    by (simp add: deriveMask_def classify_edgeExample)
  finally have alpha: "removeBackground ?s edgeExample 3 3 ! (4 * (1 * 3 + 1) + 3) = 0"
    by simp
  from general magnitude_edgeExample stored mask alpha show ?thesis by blast
qed

text \<open>The first part of the theorem at the centre of \<open>edgeExample\<close>.\<close>

theorem sobel_edge_wraps_witness:
  "((1::nat) < 3 \<and> (1::nat) < 3)
   \<and> applySobelOperator edgeExample 3 3 ! (1 * 3 + 1) = nat (\<lfloor>magnitude edgeExample 3 1 1\<rfloor> mod 256)
   \<and> \<lfloor>magnitude edgeExample 3 1 1\<rfloor> = 256
   \<and> classify edgeExample 3 3 20 30 ! (1 * 3 + 1) = 0"
  using sobel_edge_wraps [of 1 3 1 3 edgeExample] by simp

section \<open>Rounding to the nearest double\<close>

text \<open>
  Error bounds for the double arithmetic of \<open>rgbToHsl\<close> and of the colour splash loop,
  from the definition of \<open>fl\<close>.
\<close>

lemma fl_zero [simp]: "fl 0 = 0"
  by (simp add: fl_def)

lemma roundEven_error: "\<bar>of_int (roundEven x) - x\<bar> \<le> 1 / 2"
  unfolding roundEven_def Let_def by (auto; linarith)

text \<open>\<open>binaryExponent x\<close> is the \<open>k\<close> with \<open>2 ^ k \<le> \<bar>x\<bar> < 2 ^ (k + 1)\<close>.\<close>

lemma binaryExponent_bounds:
  assumes "x \<noteq> 0"
  shows "2 powi binaryExponent x \<le> \<bar>x\<bar>" and "\<bar>x\<bar> < 2 powi (binaryExponent x + 1)"
proof -
  let ?a = "\<bar>x\<bar>"
  have pos: "0 < ?a" using assms by simp
  have "2 powi binaryExponent x \<le> ?a \<and> ?a < 2 powi (binaryExponent x + 1)"
  proof (cases "1 \<le> ?a")
    case True
    let ?n = "\<lfloor>?a\<rfloor>"
    have n: "0 < ?n" using True by simp
    from bitlen_bounds [OF n] have b: "2 ^ nat (bitlen ?n - 1) \<le> ?n" "?n < 2 ^ nat (bitlen ?n)"
      by simp_all
    have bl: "0 < bitlen ?n" using n bitlen_eq_zero_iff [of ?n] bitlen_nonneg [of ?n] by linarith
    have k: "binaryExponent x = bitlen ?n - 1" using True by (simp add: binaryExponent_def)
    have lo: "(2::real) powi (bitlen ?n - 1) = of_int (2 ^ nat (bitlen ?n - 1))"
      using bl by (simp add: power_int_def)
    have hi: "(2::real) powi (bitlen ?n - 1 + 1) = of_int (2 ^ nat (bitlen ?n))"
      using bl by (simp add: power_int_def)
    have "of_int (2 ^ nat (bitlen ?n - 1)) \<le> (of_int ?n :: real)"
      using b(1) by (simp only: of_int_le_iff)
    also have "\<dots> \<le> ?a" by simp
    finally have 1: "2 powi binaryExponent x \<le> ?a" by (simp only: k lo)
    have "?n + 1 \<le> 2 ^ nat (bitlen ?n)" using b(2) by simp
    then have "(of_int (?n + 1) :: real) \<le> of_int (2 ^ nat (bitlen ?n))"
      by (simp only: of_int_le_iff)
    moreover have "?a < of_int (?n + 1)" by linarith
    ultimately have 2: "?a < 2 powi (binaryExponent x + 1)" by (simp only: k hi)
    from 1 2 show ?thesis ..
  next
    case False
    let ?c = "\<lceil>1 / ?a\<rceil>"
    let ?m = "bitlen (?c - 1)"
    from False pos have inv: "1 < 1 / ?a" by simp
    then have c: "0 < ?c - 1" by linarith
    from bitlen_bounds [OF c] have b: "2 ^ nat (?m - 1) \<le> ?c - 1" "?c - 1 < 2 ^ nat ?m"
      by simp_all
    have bl: "0 < ?m"
      using c bitlen_eq_zero_iff [of "?c - 1"] bitlen_nonneg [of "?c - 1"] by linarith
    have k: "binaryExponent x = - ?m" using False by (simp add: binaryExponent_def)
    have "?c \<le> 2 ^ nat ?m" using b(2) by simp
    then have "(of_int ?c :: real) \<le> of_int (2 ^ nat ?m)" by (simp only: of_int_le_iff)
    moreover have "1 / ?a \<le> of_int ?c" by (rule le_of_int_ceiling)
    moreover have "(of_int (2 ^ nat ?m) :: real) = 2 ^ nat ?m" by simp
    ultimately have up: "1 / ?a \<le> 2 ^ nat ?m" by linarith
    have "(of_int (2 ^ nat (?m - 1)) :: real) \<le> of_int (?c - 1)"
      using b(1) by (simp only: of_int_le_iff)
    moreover have "of_int (?c - 1) < 1 / ?a" by linarith
    moreover have "(of_int (2 ^ nat (?m - 1)) :: real) = 2 ^ nat (?m - 1)" by simp
    ultimately have down: "2 ^ nat (?m - 1) < 1 / ?a" by linarith
    have p1: "(2::real) powi (- ?m) = 1 / 2 ^ nat ?m"
      using bl by (simp add: power_int_def field_simps)
    have p2: "(2::real) powi (- ?m + 1) = 1 / 2 ^ nat (?m - 1)"
      using bl by (simp add: power_int_def field_simps)
    have 1: "2 powi binaryExponent x \<le> ?a"
      unfolding k p1 using up pos by (simp add: field_simps)
    have 2: "?a < 2 powi (binaryExponent x + 1)"
      unfolding k p2 using down pos by (simp add: field_simps)
    from 1 2 show ?thesis ..
  qed
  then show "2 powi binaryExponent x \<le> \<bar>x\<bar>" and "\<bar>x\<bar> < 2 powi (binaryExponent x + 1)"
    by simp_all
qed

lemma unitRoundoff_bounds: "0 < unitRoundoff" "unitRoundoff \<le> 1 / 9000000000000000"
  by (simp_all add: unitRoundoff_def)

text \<open>One rounding of a number of size at most \<open>B\<close> (at least 1) moves it by at most
  \<open>B / 2 ^ 53\<close>.\<close>

lemma fl_error:
  assumes "\<bar>x\<bar> \<le> B" and "1 \<le> B"
  shows "\<bar>fl x - x\<bar> \<le> B * unitRoundoff"
proof (cases "x = 0")
  case True
  then show ?thesis using assms(2) by (simp add: fl_def unitRoundoff_def)
next
  case False
  define k where "k = max (binaryExponent x) (- 1022)"
  define P where "P = (2::real) powi (k - 52)"
  define m where "m = roundEven (x / P)"
  have P: "0 < P" by (simp add: P_def)
  have flx: "fl x = of_int m * P"
    using False by (simp add: fl_def Let_def k_def P_def m_def)
  have "fl x - x = (of_int m - x / P) * P"
    using P by (simp add: flx field_simps)
  then have "\<bar>fl x - x\<bar> = \<bar>of_int m - x / P\<bar> * P"
    using P by (simp add: abs_mult)
  also have "\<dots> \<le> (1 / 2) * P"
    using roundEven_error [of "x / P"] P unfolding m_def
    by (intro mult_right_mono) simp_all
  finally have e: "\<bar>fl x - x\<bar> \<le> P / 2" by simp
  have kB: "2 powi k \<le> B"
  proof (cases "- 1022 \<le> binaryExponent x")
    case True
    then have "k = binaryExponent x" by (simp add: k_def)
    then show ?thesis using binaryExponent_bounds(1) [OF False] assms(1) by simp
  next
    case False
    then have "k = - 1022" by (simp add: k_def)
    moreover have "(2::real) powi (- 1022) \<le> 1"
      using power_int_increasing [of "- 1022" 0 "2::real"] by simp
    ultimately show ?thesis using assms(2) by simp
  qed
  have "P = 2 powi k / 2 ^ 52" by (simp add: P_def power_int_diff)
  then have "P / 2 = 2 powi k / 2 ^ 53" by simp
  also have "\<dots> \<le> B / 2 ^ 53" using kB by (simp add: divide_right_mono)
  finally show ?thesis using e by (simp add: unitRoundoff_def)
qed

text \<open>A quotient of two numbers known up to \<open>e\<close>, the divisor at least \<open>1 / 255\<close> and
  at least the dividend in size, is known up to \<open>512 * e\<close>.\<close>

lemma quotient_error:
  fixes n d N D e :: real
  assumes "\<bar>n - N\<bar> \<le> e" and "\<bar>d - D\<bar> \<le> e" and "\<bar>N\<bar> \<le> D" and "1 / 255 \<le> D"
    and "e \<le> 1 / 100000"
  shows "\<bar>n / d - N / D\<bar> \<le> 512 * e"
proof -
  have e0: "0 \<le> e" using assms(1) by linarith
  have D: "0 < D" using assms(4) by linarith
  have d: "1 / 256 \<le> d" using assms(2,4,5) by linarith
  then have d0: "0 < d" by linarith
  have a: "\<bar>(n - N) * D\<bar> \<le> e * D"
    using assms(1) D by (simp add: abs_mult)
  have "\<bar>N\<bar> * \<bar>d - D\<bar> \<le> D * e"
    using assms(2,3) e0 by (intro mult_mono) simp_all
  then have b: "\<bar>N * (d - D)\<bar> \<le> e * D" by (simp add: abs_mult mult.commute)
  have num: "\<bar>(n - N) * D - N * (d - D)\<bar> \<le> 2 * e * D"
    using a b by linarith
  have "n / d - N / D = ((n - N) * D - N * (d - D)) / (d * D)"
    using d0 D by (simp add: field_simps)
  then have "\<bar>n / d - N / D\<bar> = \<bar>(n - N) * D - N * (d - D)\<bar> / (d * D)"
    using d0 D by (simp add: abs_mult)
  also have "\<dots> \<le> (2 * e * D) / (d * D)"
    by (rule divide_right_mono [OF num]) (use d0 D in simp)
  also have "\<dots> = 2 * e * (1 / d)" using D by simp
  also have "\<dots> \<le> 2 * e * 256"
  proof -
    have "1 / d \<le> 256" using d d0 by (simp add: field_simps)
    then show ?thesis using e0 by (intro mult_left_mono) simp_all
  qed
  finally show ?thesis by simp
qed

text \<open>The doubles of the bytes over 255 are within one rounding of the fractions and keep
  their order, so \<open>Math.max\<close>, \<open>Math.min\<close> and the comparisons of \<open>rgbToHsl\<close> decide as
  on the bytes.\<close>

lemma chan_error:
  assumes "k \<le> 255"
  shows "\<bar>chan k - real k / 255\<bar> \<le> unitRoundoff"
proof -
  have "\<bar>real k / 255\<bar> \<le> 1" using assms by simp
  from fl_error [OF this] show ?thesis by (simp add: chan_def)
qed

lemma chan_less:
  assumes "j < k" and "k \<le> 255"
  shows "chan j < chan k"
proof -
  have "real j + 1 \<le> real k" using assms(1) by simp
  then have "real j / 255 + 1 / 255 \<le> real k / 255" by (simp add: field_simps)
  moreover have "\<bar>chan j - real j / 255\<bar> \<le> unitRoundoff"
    "\<bar>chan k - real k / 255\<bar> \<le> unitRoundoff"
    using assms by (simp_all add: chan_error)
  ultimately show ?thesis using unitRoundoff_bounds by linarith
qed

lemma chan_le: "j \<le> k \<Longrightarrow> k \<le> 255 \<Longrightarrow> chan j \<le> chan k"
  using chan_less [of j k] by (cases "j = k") simp_all

lemma chan_eq_iff: "j \<le> 255 \<Longrightarrow> k \<le> 255 \<Longrightarrow> chan j = chan k \<longleftrightarrow> j = k"
  using chan_less [of j k] chan_less [of k j] by (cases j k rule: linorder_cases) simp_all

lemma chan_less_iff: "j \<le> 255 \<Longrightarrow> k \<le> 255 \<Longrightarrow> chan j < chan k \<longleftrightarrow> j < k"
  using chan_less [of j k] chan_le [of k j] by (cases "j < k") simp_all

lemma chan_max: "j \<le> 255 \<Longrightarrow> k \<le> 255 \<Longrightarrow> max (chan j) (chan k) = chan (max j k)"
  using chan_le [of j k] chan_le [of k j] by (cases "j \<le> k") (simp_all add: max_def)

lemma chan_min: "j \<le> 255 \<Longrightarrow> k \<le> 255 \<Longrightarrow> min (chan j) (chan k) = chan (min j k)"
  using chan_le [of j k] chan_le [of k j] by (cases "j \<le> k") (simp_all add: min_def)

text \<open>One branch of the \<open>switch\<close> of \<open>rgbToHsl\<close> with the division by 6 and the product
  with 360 that follow: six roundings after those of the channels, against the exact
  value.\<close>

lemma sector_error:
  fixes j k hi lo :: nat and off :: real
  assumes "hi \<le> 255" and "lo < hi" and "lo \<le> j" and "j \<le> hi" and "lo \<le> k" and "k \<le> hi"
    and "0 \<le> off" and "off \<le> 6"
  shows "\<bar>fl (fl (fl (fl (fl (chan j - chan k) / fl (chan hi - chan lo)) + off) / 6) * 360)
          - 60 * ((real j - real k) / (real hi - real lo) + off)\<bar> \<le> 2 / 10 ^ 11"
proof -
  define u where "u = unitRoundoff"
  have u: "0 < u" "u \<le> 1 / 9000000000000000"
    using unitRoundoff_bounds by (simp_all add: u_def)
  define J K H L where "J = real j / 255" and "K = real k / 255"
    and "H = real hi / 255" and "L = real lo / 255"
  have range: "0 \<le> L" "L \<le> J" "J \<le> H" "L \<le> K" "K \<le> H" "H \<le> 1" "L + 1 / 255 \<le> H"
    using assms(1-6) by (simp_all add: J_def K_def H_def L_def field_simps)
  have c: "\<bar>chan j - J\<bar> \<le> u" "\<bar>chan k - K\<bar> \<le> u" "\<bar>chan hi - H\<bar> \<le> u" "\<bar>chan lo - L\<bar> \<le> u"
    using assms(1-6) by (simp_all add: J_def K_def H_def L_def u_def chan_error)
  define n where "n = fl (chan j - chan k)"
  define d where "d = fl (chan hi - chan lo)"
  have "\<bar>chan j - chan k\<bar> \<le> 2" using c range u by linarith
  from fl_error [OF this] have "\<bar>n - (chan j - chan k)\<bar> \<le> 2 * u" by (simp add: n_def u_def)
  then have n: "\<bar>n - (J - K)\<bar> \<le> 4 * u" using c by linarith
  have "\<bar>chan hi - chan lo\<bar> \<le> 2" using c range u by linarith
  from fl_error [OF this] have "\<bar>d - (chan hi - chan lo)\<bar> \<le> 2 * u" by (simp add: d_def u_def)
  then have d: "\<bar>d - (H - L)\<bar> \<le> 4 * u" using c by linarith
  have ND: "\<bar>J - K\<bar> \<le> H - L" "1 / 255 \<le> H - L" using range by linarith+
  have "4 * u \<le> 1 / 100000" using u by linarith
  from quotient_error [OF n d ND this]
  have q0: "\<bar>n / d - (J - K) / (H - L)\<bar> \<le> 2048 * u" by simp
  define Q where "Q = (real j - real k) / (real hi - real lo)"
  have "J - K = (real j - real k) / 255" "H - L = (real hi - real lo) / 255"
    by (simp_all add: J_def K_def H_def L_def diff_divide_distrib)
  then have "(J - K) / (H - L) = ((real j - real k) / 255) / ((real hi - real lo) / 255)"
    by (simp only:)
  also have "\<dots> = Q"
  proof -
    have "(a / 255) / (b / 255) = a / b" for a b :: real by simp
    then show ?thesis unfolding Q_def .
  qed
  finally have Q: "(J - K) / (H - L) = Q" .
  have Qr: "\<bar>Q\<bar> \<le> 1"
  proof -
    have "\<bar>J - K\<bar> / (H - L) \<le> 1" using ND by (simp add: field_simps)
    moreover have "0 < H - L" using ND by linarith
    ultimately show ?thesis unfolding Q [symmetric] by (simp add: abs_divide)
  qed
  have q1: "\<bar>n / d - Q\<bar> \<le> 2048 * u" using q0 by (simp only: Q)
  define q where "q = fl (n / d)"
  have "\<bar>n / d\<bar> \<le> 2" using q1 Qr u by linarith
  from fl_error [OF this] have "\<bar>q - n / d\<bar> \<le> 2 * u" by (simp add: q_def u_def)
  then have q: "\<bar>q - Q\<bar> \<le> 2050 * u" using q1 by linarith
  define h1 where "h1 = fl (q + off)"
  have "\<bar>q + off\<bar> \<le> 8" using q Qr u assms(7,8) by linarith
  from fl_error [OF this] have "\<bar>h1 - (q + off)\<bar> \<le> 8 * u" by (simp add: h1_def u_def)
  then have h1: "\<bar>h1 - (Q + off)\<bar> \<le> 2058 * u" using q by linarith
  define h2 where "h2 = fl (h1 / 6)"
  have "\<bar>h1 / 6\<bar> \<le> 2" using h1 Qr u assms(7,8) unfolding abs_le_iff by linarith
  from fl_error [OF this] have "\<bar>h2 - h1 / 6\<bar> \<le> 2 * u" by (simp add: h2_def u_def)
  then have h2: "\<bar>h2 - (Q + off) / 6\<bar> \<le> 345 * u" using h1 unfolding abs_le_iff add_divide_distrib by linarith
  define h3 where "h3 = fl (h2 * 360)"
  have "\<bar>h2 * 360\<bar> \<le> 512" using h2 Qr u assms(7,8) unfolding abs_le_iff add_divide_distrib by linarith
  from fl_error [OF this] have "\<bar>h3 - h2 * 360\<bar> \<le> 512 * u" by (simp add: h3_def u_def)
  then have "\<bar>h3 - 60 * (Q + off)\<bar> \<le> 124712 * u" using h2 unfolding abs_le_iff add_divide_distrib distrib_left by linarith
  then have "\<bar>h3 - 60 * (Q + off)\<bar> \<le> 2 / 10 ^ 11" using u by simp
  then show ?thesis by (simp only: h3_def h2_def h1_def q_def n_def d_def Q_def)
qed

section \<open>Advanced effects: alpha, colour splash, the canvas\<close>

lemma length_noiseStep [simp]: "length (noiseStep random amount i d) = length d"
  by (simp add: noiseStep_def Let_def)
lemma length_colorSplashStep [simp]: "length (colorSplashStep target tol i d) = length d"
  by (simp add: colorSplashStep_def Let_def split_def)
lemma length_gammaStep [simp]: "length (gammaStep gam i d) = length d"
  by (simp add: gammaStep_def)
lemma length_colorBalanceStep [simp]: "length (colorBalanceStep cr cg cb i d) = length d"
  by (simp add: colorBalanceStep_def)
lemma length_splitToningStep [simp]: "length (splitToningStep hi sh i d) = length d"
  by (simp add: splitToningStep_def Let_def)

lemma noiseStep_frame: "j < i \<or> i + 3 \<le> j \<Longrightarrow> noiseStep random amount i d ! j = d ! j"
  by (auto simp add: noiseStep_def Let_def)
lemma colorSplashStep_frame: "j < i \<or> i + 3 \<le> j \<Longrightarrow> colorSplashStep target tol i d ! j = d ! j"
  by (auto simp add: colorSplashStep_def Let_def split_def)
lemma gammaStep_frame: "j < i \<or> i + 3 \<le> j \<Longrightarrow> gammaStep gam i d ! j = d ! j"
  by (auto simp add: gammaStep_def)
lemma colorBalanceStep_frame: "j < i \<or> i + 3 \<le> j \<Longrightarrow> colorBalanceStep cr cg cb i d ! j = d ! j"
  by (auto simp add: colorBalanceStep_def)
lemma splitToningStep_frame: "j < i \<or> i + 3 \<le> j \<Longrightarrow> splitToningStep hi sh i d ! j = d ! j"
  by (auto simp add: splitToningStep_def Let_def)

lemma loopN_alpha:
  assumes "\<And>i d j. j < i \<or> i + 3 \<le> j \<Longrightarrow> body i d ! j = d ! j"
  shows "loopN body n d ! (4 * p + 3) = d ! (4 * p + 3)"
proof (induction n)
  case 0
  then show ?case by (simp add: loopN_def)
next
  case (Suc n)
  have "4 * p + 3 < 4 * n \<or> 4 * n + 3 \<le> 4 * p + 3" by arith
  then show ?case using Suc by (simp add: loopN_Suc assms)
qed

lemma alphaPlane_pixelLoop:
  assumes "\<And>i d. length (body i d) = length d"
    and "\<And>i d j. j < i \<or> i + 3 \<le> j \<Longrightarrow> body i d ! j = d ! j"
  shows "alphaPlane (pixelLoop body d) = alphaPlane d"
  by (simp add: alphaPlane_def pixelLoop_loopN loopN_length [of body, OF assms(1)]
      loopN_alpha [of body, OF assms(2)])

text \<open>
  C10. Each of the five loops over \<open>data\<close> (noise, colour splash, gamma, colour balance,
  split toning), enabled or not, leaves the alpha plane as it was.
\<close>

theorem effects_keep_alpha:
  "alphaPlane (noiseStage fx random d) = alphaPlane d
   \<and> alphaPlane (colorSplashStage fx d) = alphaPlane d
   \<and> alphaPlane (gammaStage fx d) = alphaPlane d
   \<and> alphaPlane (colorBalanceStage fx d) = alphaPlane d
   \<and> alphaPlane (splitToningStage fx d) = alphaPlane d"
  by (simp add: noiseStage_def colorSplashStage_def gammaStage_def colorBalanceStage_def
      splitToningStage_def alphaPlane_pixelLoop noiseStep_frame colorSplashStep_frame
      gammaStep_frame colorBalanceStep_frame splitToningStep_frame)

text \<open>The theorem with all five effects on, on two pixels of alpha 7 and 200.\<close>

theorem effects_keep_alpha_witness:
  "alphaPlane (noiseStage (defaultEffects\<lparr>noiseAmount := 50\<rparr>) (\<lambda>k. 1 / 4) [9, 8, 7, 7, 1, 2, 3, 200])
     = alphaPlane [9, 8, 7, 7, 1, 2, 3, 200]
   \<and> alphaPlane (colorSplashStage (defaultEffects\<lparr>colorSplash := True\<rparr>) [9, 8, 7, 7, 1, 2, 3, 200])
     = alphaPlane [9, 8, 7, 7, 1, 2, 3, 200]
   \<and> alphaPlane (gammaStage (defaultEffects\<lparr>gamma := 2\<rparr>) [9, 8, 7, 7, 1, 2, 3, 200])
     = alphaPlane [9, 8, 7, 7, 1, 2, 3, 200]
   \<and> alphaPlane (colorBalanceStage (defaultEffects\<lparr>colorBalanceR := 5\<rparr>) [9, 8, 7, 7, 1, 2, 3, 200])
     = alphaPlane [9, 8, 7, 7, 1, 2, 3, 200]
   \<and> alphaPlane (splitToningStage (defaultEffects\<lparr>splitToning := True\<rparr>) [9, 8, 7, 7, 1, 2, 3, 200])
     = alphaPlane [9, 8, 7, 7, 1, 2, 3, 200]"
  using effects_keep_alpha [of "defaultEffects\<lparr>noiseAmount := 50\<rparr>" "\<lambda>k. 1 / 4" "[9, 8, 7, 7, 1, 2, 3, 200]"]
    effects_keep_alpha [of "defaultEffects\<lparr>colorSplash := True\<rparr>" "\<lambda>k. 0" "[9, 8, 7, 7, 1, 2, 3, 200]"]
    effects_keep_alpha [of "defaultEffects\<lparr>gamma := 2\<rparr>" "\<lambda>k. 0" "[9, 8, 7, 7, 1, 2, 3, 200]"]
    effects_keep_alpha [of "defaultEffects\<lparr>colorBalanceR := 5\<rparr>" "\<lambda>k. 0" "[9, 8, 7, 7, 1, 2, 3, 200]"]
    effects_keep_alpha [of "defaultEffects\<lparr>splitToning := True\<rparr>" "\<lambda>k. 0" "[9, 8, 7, 7, 1, 2, 3, 200]"]
  by blast

text \<open>The hue of \<open>rgbToHsl\<close> on three bytes, its comparisons decided on the bytes.\<close>

lemma hueOf_bytes:
  assumes "r \<le> 255" and "g \<le> 255" and "b \<le> 255"
  shows "hueOf r g b =
     (let mx = max r (max g b); mn = min r (min g b); d = fl (chan mx - chan mn)
      in if mx = mn then 0
         else fl (fl ((if mx = r then fl (fl (fl (chan g - chan b) / d) + (if g < b then 6 else 0))
                       else if mx = g then fl (fl (fl (chan b - chan r) / d) + 2)
                       else fl (fl (fl (chan r - chan g) / d) + 4)) / 6) * 360))"
proof -
  let ?M = "max r (max g b)" and ?m = "min r (min g b)"
  have M: "?M \<le> 255" and m: "?m \<le> 255" using assms by simp_all
  have mx: "max (chan r) (max (chan g) (chan b)) = chan ?M"
    using assms by (simp add: chan_max)
  have mn: "min (chan r) (min (chan g) (chan b)) = chan ?m"
    using assms by (simp add: chan_min)
  have eqs: "chan ?M = chan ?m \<longleftrightarrow> ?M = ?m" "chan ?M = chan r \<longleftrightarrow> ?M = r"
    "chan ?M = chan g \<longleftrightarrow> ?M = g" "chan ?M = chan b \<longleftrightarrow> ?M = b"
    "chan g < chan b \<longleftrightarrow> g < b"
    using assms M m by (simp_all only: chan_eq_iff chan_less_iff)
  have last: "?M \<noteq> r \<Longrightarrow> ?M \<noteq> g \<Longrightarrow> ?M = b" by (simp add: max_def split: if_splits)
  show ?thesis
    unfolding hueOf_def rgbToHsl_def chan_def [symmetric] Let_def mx mn eqs
    using last by (simp add: split_def)
qed

text \<open>The quotient of a branch lies between \<open>- 1\<close> and 1.\<close>

lemma sector_range:
  fixes j k hi lo :: nat
  assumes "lo < hi" and "lo \<le> j" and "j \<le> hi" and "lo \<le> k" and "k \<le> hi"
  shows "- 1 \<le> (real j - real k) / (real hi - real lo)"
    and "(real j - real k) / (real hi - real lo) \<le> 1"
    and "j < k \<Longrightarrow> (real j - real k) / (real hi - real lo) < 0"
    and "\<not> j < k \<Longrightarrow> 0 \<le> (real j - real k) / (real hi - real lo)"
proof -
  have d: "0 < real hi - real lo" using assms(1) by simp
  have "\<bar>real j - real k\<bar> \<le> real hi - real lo" using assms by linarith
  then have "\<bar>(real j - real k) / (real hi - real lo)\<bar> \<le> 1"
    using d by (simp add: abs_divide)
  then show "- 1 \<le> (real j - real k) / (real hi - real lo)"
    and "(real j - real k) / (real hi - real lo) \<le> 1" by linarith+
  show "j < k \<Longrightarrow> (real j - real k) / (real hi - real lo) < 0"
    using d by (simp add: divide_neg_pos)
  show "\<not> j < k \<Longrightarrow> 0 \<le> (real j - real k) / (real hi - real lo)"
    using d by simp
qed

text \<open>The hue that \<open>rgbToHsl\<close> computes for a pixel lies within \<open>2 / 10 ^ 11\<close> degrees of
  the exact hue, which lies between 0 and 360.\<close>

lemma hueOf_error_range:
  assumes "r \<le> 255" and "g \<le> 255" and "b \<le> 255"
  shows "\<bar>hueOf r g b - hslHue r g b\<bar> \<le> 2 / 10 ^ 11 \<and> 0 \<le> hslHue r g b \<and> hslHue r g b \<le> 360"
proof -
  define M m where "M = max r (max g b)" and "m = min r (min g b)"
  have M: "M \<le> 255" using assms by (simp add: M_def)
  have low: "m \<le> r" "m \<le> g" "m \<le> b" and high: "r \<le> M" "g \<le> M" "b \<le> M"
    by (simp_all add: M_def m_def)
  have one: "M \<noteq> r \<Longrightarrow> M \<noteq> g \<Longrightarrow> M = b"
    by (simp add: M_def max_def split: if_splits)
  have code: "hueOf r g b =
      (if M = m then 0
       else fl (fl ((if M = r
                     then fl (fl (fl (chan g - chan b) / fl (chan M - chan m)) + (if g < b then 6 else 0))
                     else if M = g then fl (fl (fl (chan b - chan r) / fl (chan M - chan m)) + 2)
                     else fl (fl (fl (chan r - chan g) / fl (chan M - chan m)) + 4)) / 6) * 360))"
    using hueOf_bytes [OF assms] unfolding Let_def M_def m_def .
  have spec: "hslHue r g b =
      (if M = m then 0
       else if M = r then 60 * ((real g - real b) / (real M - real m) + (if g < b then 6 else 0))
       else if M = g then 60 * ((real b - real r) / (real M - real m) + 2)
       else 60 * ((real r - real g) / (real M - real m) + 4))"
    unfolding hslHue_def Let_def M_def m_def ..
  show ?thesis
  proof (cases "M = m")
    case True
    then show ?thesis by (simp add: code spec)
  next
    case False
    then have lt: "m < M" using low(1) high(1) by linarith
    consider "M = r" | "M \<noteq> r" "M = g" | "M \<noteq> r" "M \<noteq> g" by blast
    then show ?thesis
    proof cases
      case 1
      define off :: real where "off = (if g < b then 6 else 0)"
      have off: "0 \<le> off" "off \<le> 6" by (simp_all add: off_def)
      have c: "hueOf r g b =
          fl (fl (fl (fl (fl (chan g - chan b) / fl (chan M - chan m)) + off) / 6) * 360)"
        unfolding code off_def using False 1 by simp
      have s: "hslHue r g b = 60 * ((real g - real b) / (real M - real m) + off)"
        unfolding spec off_def using False 1 by simp
      note q = sector_range [OF lt low(2) high(2) low(3) high(3)]
      have "0 \<le> (real g - real b) / (real M - real m) + off"
        "(real g - real b) / (real M - real m) + off \<le> 6"
        using q by (cases "g < b"; simp add: off_def; linarith)+
      then have "0 \<le> hslHue r g b" "hslHue r g b \<le> 360" unfolding s distrib_left by linarith+
      moreover have "\<bar>hueOf r g b - hslHue r g b\<bar> \<le> 2 / 10 ^ 11"
        unfolding c s by (rule sector_error [OF M lt low(2) high(2) low(3) high(3) off])
      ultimately show ?thesis by blast
    next
      case 2
      have c: "hueOf r g b =
          fl (fl (fl (fl (fl (chan b - chan r) / fl (chan M - chan m)) + 2) / 6) * 360)"
        unfolding code using False 2 by simp
      have s: "hslHue r g b = 60 * ((real b - real r) / (real M - real m) + 2)"
        unfolding spec using False 2 by simp
      note q = sector_range [OF lt low(3) high(3) low(1) high(1)]
      have "0 \<le> hslHue r g b" "hslHue r g b \<le> 360" unfolding s distrib_left using q(1,2) by linarith+
      moreover have "\<bar>hueOf r g b - hslHue r g b\<bar> \<le> 2 / 10 ^ 11"
        unfolding c s by (rule sector_error [OF M lt low(3) high(3) low(1) high(1)]) simp_all
      ultimately show ?thesis by blast
    next
      case 3
      have c: "hueOf r g b =
          fl (fl (fl (fl (fl (chan r - chan g) / fl (chan M - chan m)) + 4) / 6) * 360)"
        unfolding code using False 3 by simp
      have s: "hslHue r g b = 60 * ((real r - real g) / (real M - real m) + 4)"
        unfolding spec using False 3 by simp
      note q = sector_range [OF lt low(1) high(1) low(2) high(2)]
      have "0 \<le> hslHue r g b" "hslHue r g b \<le> 360" unfolding s distrib_left using q(1,2) by linarith+
      moreover have "\<bar>hueOf r g b - hslHue r g b\<bar> \<le> 2 / 10 ^ 11"
        unfolding c s by (rule sector_error [OF M lt low(1) high(1) low(2) high(2)]) simp_all
      ultimately show ?thesis by blast
    qed
  qed
qed

text \<open>The test of the loop against the exact circular distance; the subtractions from the
  target and from 360 round once each.\<close>

lemma hueOutside_margin:
  assumes "\<bar>h - H\<bar> \<le> 2 / 10 ^ 11" and "0 \<le> H" and "H \<le> 360" and "0 \<le> t" and "t \<le> 360"
  shows "tol + 1 / 10 ^ 10 < hueDistance H t \<Longrightarrow> hueOutside h t tol"
    and "hueDistance H t < tol - 1 / 10 ^ 10 \<Longrightarrow> \<not> hueOutside h t tol"
proof -
  define u where "u = unitRoundoff"
  have u: "0 < u" "u \<le> 1 / 9000000000000000"
    using unitRoundoff_bounds by (simp_all add: u_def)
  define a where "a = \<bar>fl (h - t)\<bar>"
  have h: "\<bar>h - H\<bar> \<le> 1 / 50000000000" using assms(1) by simp
  have "\<bar>h - t\<bar> \<le> 361" using h assms(2-5) by linarith
  from fl_error [OF this] have x: "\<bar>fl (h - t) - (h - t)\<bar> \<le> 361 * u" by (simp add: u_def)
  have a: "\<bar>a - \<bar>H - t\<bar>\<bar> \<le> 1 / 50000000000 + 361 * u"
    unfolding a_def using x h by linarith
  have "\<bar>360 - a\<bar> \<le> 361" using a assms(2-5) u by linarith
  from fl_error [OF this] have y: "\<bar>fl (360 - a) - (360 - a)\<bar> \<le> 361 * u" by (simp add: u_def)
  have out: "hueOutside h t tol \<longleftrightarrow> a > tol \<and> fl (360 - a) > tol"
    by (simp add: hueOutside_def Let_def a_def)
  have D: "hueDistance H t = min \<bar>H - t\<bar> (360 - \<bar>H - t\<bar>)" by (simp add: hueDistance_def)
  show "hueOutside h t tol" if "tol + 1 / 10 ^ 10 < hueDistance H t"
  proof -
    from that have "tol + 1 / 10000000000 < \<bar>H - t\<bar>" "tol + 1 / 10000000000 < 360 - \<bar>H - t\<bar>"
      unfolding D by simp_all
    then have "a > tol" "fl (360 - a) > tol" using a y u by linarith+
    then show ?thesis by (simp add: out)
  qed
  show "\<not> hueOutside h t tol" if "hueDistance H t < tol - 1 / 10 ^ 10"
  proof -
    from that have "\<bar>H - t\<bar> < tol - 1 / 10000000000 \<or> 360 - \<bar>H - t\<bar> < tol - 1 / 10000000000"
      unfolding D by (simp add: min_less_iff_disj)
    then have "a < tol \<or> fl (360 - a) < tol" using a y u by linarith
    then show ?thesis unfolding out by linarith
  qed
qed

text \<open>A weight times a byte, after the rounding of the literal and of the product.\<close>

lemma weight_error:
  assumes "0 \<le> w" and "w \<le> 1" and "k \<le> 255"
  shows "\<bar>fl (fl w * real k) - w * real k\<bar> \<le> 511 * unitRoundoff"
proof -
  define u where "u = unitRoundoff"
  have u: "0 < u" "u \<le> 1 / 9000000000000000"
    using unitRoundoff_bounds by (simp_all add: u_def)
  have k: "0 \<le> real k" "real k \<le> 255" using assms(3) by simp_all
  have "\<bar>w\<bar> \<le> 1" using assms(1,2) by simp
  from fl_error [OF this] have w: "\<bar>fl w - w\<bar> \<le> u" by (simp add: u_def)
  have "\<bar>fl w - w\<bar> * real k \<le> u * 255"
    using w k u by (intro mult_mono) simp_all
  then have p: "\<bar>fl w * real k - w * real k\<bar> \<le> 255 * u"
    by (simp add: abs_mult flip: left_diff_distrib)
  have "w * real k \<le> 1 * 255" using assms(1,2) k by (intro mult_mono) simp_all
  moreover have "0 \<le> w * real k" using assms(1) k by simp
  ultimately have "\<bar>fl w * real k\<bar> \<le> 256" using p u by linarith
  from fl_error [OF this] have "\<bar>fl (fl w * real k) - fl w * real k\<bar> \<le> 256 * u"
    by (simp add: u_def)
  then show ?thesis using p unfolding u_def by linarith
qed

text \<open>The store into the clamped array picks a byte nearest to the number.\<close>

lemma toUint8Clamped_near:
  assumes "\<bar>x - E\<bar> \<le> e" and "0 \<le> E" and "E \<le> 255"
  shows "\<bar>real (toUint8Clamped x) - E\<bar> \<le> 1 / 2 + e"
proof -
  consider "x \<le> 0" | "255 \<le> x" | "0 < x" "x < 255" by linarith
  then show ?thesis
  proof cases
    case 1
    then show ?thesis using assms by (simp add: toUint8Clamped_def)
  next
    case 2
    then have "toUint8Clamped x = 255" by (simp add: toUint8Clamped_def)
    then show ?thesis using assms 2 by simp
  next
    case 3
    define f where "f = \<lfloor>x\<rfloor>"
    have f: "0 \<le> f" "of_int f \<le> x" "x < of_int f + 1" using 3 by (simp_all add: f_def)
    have "toUint8Clamped x =
        nat (if x - of_int f < 1 / 2 then f else if 1 / 2 < x - of_int f then f + 1
             else if even f then f else f + 1)"
      using 3 by (simp add: toUint8Clamped_def Let_def f_def)
    then have "\<bar>real (toUint8Clamped x) - x\<bar> \<le> 1 / 2"
      using f by (auto split: if_splits)
    then show ?thesis using assms(1) by linarith
  qed
qed

text \<open>The grey byte lies within a half and a little of the weighted sum.\<close>

lemma luminanceGray_error:
  assumes "r \<le> 255" and "g \<le> 255" and "b \<le> 255"
  shows "\<bar>real (luminanceGray r g b) - (0.2126 * real r + 0.7152 * real g + 0.0722 * real b)\<bar>
           \<le> 1 / 2 + 1 / 10 ^ 12"
proof -
  define u where "u = unitRoundoff"
  have u: "0 < u" "u \<le> 1 / 9000000000000000"
    using unitRoundoff_bounds by (simp_all add: u_def)
  define E1 E2 E3 where "E1 = 0.2126 * real r" and "E2 = 0.7152 * real g" and "E3 = 0.0722 * real b"
  define p1 p2 p3 where "p1 = fl (fl 0.2126 * real r)" and "p2 = fl (fl 0.7152 * real g)"
    and "p3 = fl (fl 0.0722 * real b)"
  have E: "0 \<le> E1" "E1 \<le> 54213 / 1000" "0 \<le> E2" "E2 \<le> 182376 / 1000"
    "0 \<le> E3" "E3 \<le> 18411 / 1000"
    using assms by (simp_all add: E1_def E2_def E3_def)
  have p: "\<bar>p1 - E1\<bar> \<le> 511 * u" "\<bar>p2 - E2\<bar> \<le> 511 * u" "\<bar>p3 - E3\<bar> \<le> 511 * u"
    unfolding p1_def p2_def p3_def E1_def E2_def E3_def u_def
    using assms by (intro weight_error; simp)+
  have "\<bar>p1 + p2\<bar> \<le> 256" using p E u by linarith
  from fl_error [OF this] have s1: "\<bar>fl (p1 + p2) - (p1 + p2)\<bar> \<le> 256 * u" by (simp add: u_def)
  have "\<bar>fl (p1 + p2) + p3\<bar> \<le> 256" using s1 p E u by linarith
  from fl_error [OF this] have s2: "\<bar>fl (fl (p1 + p2) + p3) - (fl (p1 + p2) + p3)\<bar> \<le> 256 * u"
    by (simp add: u_def)
  have "\<bar>fl (fl (p1 + p2) + p3) - (E1 + E2 + E3)\<bar> \<le> 2045 * u"
    using s1 s2 p by linarith
  then have "\<bar>fl (fl (p1 + p2) + p3) - (E1 + E2 + E3)\<bar> \<le> 1 / 10 ^ 12"
    using u by simp
  moreover have "0 \<le> E1 + E2 + E3" "E1 + E2 + E3 \<le> 255" using E by linarith+
  ultimately have "\<bar>real (toUint8Clamped (fl (fl (p1 + p2) + p3))) - (E1 + E2 + E3)\<bar> \<le> 1 / 2 + 1 / 10 ^ 12"
    by (rule toUint8Clamped_near)
  then show ?thesis
    by (simp only: luminanceGray_def p1_def p2_def p3_def E1_def E2_def E3_def)
qed

text \<open>The exact hue times the difference of the largest and the smallest byte is an
  integer.\<close>

lemma hslHue_denominator:
  assumes "r \<le> 255" and "g \<le> 255" and "b \<le> 255"
  shows "\<exists>D::nat. 0 < D \<and> D \<le> 255 \<and> hslHue r g b * real D \<in> \<int>"
proof -
  define M m where "M = max r (max g b)" and "m = min r (min g b)"
  have M: "M \<le> 255" using assms by (simp add: M_def)
  have mM: "m \<le> M" by (simp add: M_def m_def)
  show ?thesis
  proof (cases "M = m")
    case True
    then have "hslHue r g b = 0" by (simp add: hslHue_def M_def m_def)
    then have "0 < (1::nat) \<and> (1::nat) \<le> 255 \<and> hslHue r g b * real (1::nat) \<in> \<int>" by simp
    then show ?thesis by blast
  next
    case False
    define D where "D = M - m"
    have D: "0 < D" "D \<le> 255" "real D = real M - real m" using False mM M by (simp_all add: D_def)
    have branch: "60 * ((real j - real k) / real D + real off) * real D \<in> \<int>" for j k off :: nat
    proof -
      have "60 * ((real j - real k) / real D + real off) * real D
          = 60 * (real j - real k) + 60 * real off * real D"
        using D(1) by (simp add: field_simps)
      also have "\<dots> = of_int (60 * (int j - int k) + 60 * int off * int D)" by simp
      finally show ?thesis by (simp only: Ints_of_int)
    qed
    have spec: "hslHue r g b =
        (if M = r then 60 * ((real g - real b) / real D + (if g < b then 6 else 0))
         else if M = g then 60 * ((real b - real r) / real D + 2)
         else 60 * ((real r - real g) / real D + 4))"
      using False unfolding hslHue_def Let_def M_def [symmetric] m_def [symmetric] D(3) by simp
    consider "M = r" "g < b" | "M = r" "\<not> g < b" | "M \<noteq> r" "M = g" | "M \<noteq> r" "M \<noteq> g"
      by blast
    then have "hslHue r g b * real D \<in> \<int>"
    proof cases
      case 1
      then have "hslHue r g b = 60 * ((real g - real b) / real D + real (6::nat))"
        unfolding spec by simp
      then show ?thesis using branch [of g b 6] by (simp only:)
    next
      case 2
      then have "hslHue r g b = 60 * ((real g - real b) / real D + real (0::nat))"
        unfolding spec by simp
      then show ?thesis using branch [of g b 0] by (simp only:)
    next
      case 3
      then have "hslHue r g b = 60 * ((real b - real r) / real D + real (2::nat))"
        unfolding spec by simp
      then show ?thesis using branch [of b r 2] by (simp only:)
    next
      case 4
      then have "hslHue r g b = 60 * ((real r - real g) / real D + real (4::nat))"
        unfolding spec by simp
      then show ?thesis using branch [of r g 4] by (simp only:)
    qed
    then show ?thesis using D(1,2) by blast
  qed
qed

text \<open>With a target and a tolerance that are integers (the sliders give no others), the
  circular distance equals the tolerance or differs from it by \<open>1 / 255\<close> at least.\<close>

lemma hueDistance_gap:
  assumes "r \<le> 255" and "g \<le> 255" and "b \<le> 255" and "t \<in> \<int>" and "tol \<in> \<int>"
    and "hueDistance (hslHue r g b) t \<noteq> tol"
  shows "1 / 255 \<le> \<bar>hueDistance (hslHue r g b) t - tol\<bar>"
proof -
  define H where "H = hslHue r g b"
  define x where "x = hueDistance H t - tol"
  from hslHue_denominator [OF assms(1-3)] obtain D :: nat
    where D: "0 < D" "D \<le> 255" "H * real D \<in> \<int>" unfolding H_def by blast
  have tD: "t * real D \<in> \<int>" "tol * real D \<in> \<int>" "360 * real D \<in> \<int>"
    using assms(4,5) by (intro Ints_mult; simp)+
  have "H * real D - t * real D \<in> \<int>" using D(3) tD(1) by (rule Ints_diff)
  moreover have "t * real D - H * real D \<in> \<int>" using tD(1) D(3) by (rule Ints_diff)
  ultimately have a: "\<bar>H - t\<bar> * real D \<in> \<int>"
    by (cases "0 \<le> H - t") (simp_all add: abs_if left_diff_distrib)
  have cases: "hueDistance H t = \<bar>H - t\<bar> \<or> hueDistance H t = 360 - \<bar>H - t\<bar>"
    by (simp add: hueDistance_def min_def)
  have "x * real D \<in> \<int>"
  proof -
    have 1: "(\<bar>H - t\<bar> - tol) * real D \<in> \<int>"
      unfolding left_diff_distrib by (intro Ints_diff a tD)
    have 2: "(360 - \<bar>H - t\<bar> - tol) * real D \<in> \<int>"
      unfolding left_diff_distrib by (intro Ints_diff a tD)
    from cases 1 2 show ?thesis unfolding x_def by auto
  qed
  moreover have "x * real D \<noteq> 0" using assms(6) D(1) by (simp add: x_def H_def)
  ultimately have "1 \<le> \<bar>x * real D\<bar>" by (rule Ints_nonzero_abs_ge1)
  then have "1 \<le> \<bar>x\<bar> * real D" by (simp add: abs_mult)
  also have "\<dots> \<le> \<bar>x\<bar> * 255" using D(2) by (intro mult_left_mono) simp_all
  finally show ?thesis by (simp add: x_def H_def)
qed

text \<open>The body of the colour splash loop in terms of \<open>hueOf\<close>, \<open>hueOutside\<close> and
  \<open>luminanceGray\<close>.\<close>

lemma colorSplashStep_pixel:
  assumes "i + 3 < length d"
  shows "colorSplashStep target tol i d =
     (if hueOutside (hueOf (d ! i) (d ! (i + 1)) (d ! (i + 2))) target tol
      then d[i := luminanceGray (d ! i) (d ! (i + 1)) (d ! (i + 2)),
             i + 1 := luminanceGray (d ! i) (d ! (i + 1)) (d ! (i + 2)),
             i + 2 := luminanceGray (d ! i) (d ! (i + 1)) (d ! (i + 2))]
      else d)"
  by (simp add: colorSplashStep_def Let_def split_def hueOutside_def hueOf_def luminanceGray_def)

lemma colorSplashStep_local:
  fixes da d' :: bytes
  assumes "da ! i = d' ! i" "da ! (i + 1) = d' ! (i + 1)" "da ! (i + 2) = d' ! (i + 2)"
    "da ! (i + 3) = d' ! (i + 3)" "length da = length d'" "i + 3 < length da" "k < 4"
  shows "colorSplashStep target tol i da ! (i + k) = colorSplashStep target tol i d' ! (i + k)"
  using assms by (elim lt4E) (simp_all add: colorSplashStep_pixel)

lemma colorSplash_loop_nth:
  assumes "4 * p + 3 < length d" "k < 4"
  shows "pixelLoop (colorSplashStep target tol) d ! (4 * p + k)
       = colorSplashStep target tol (4 * p) d ! (4 * p + k)"
  using assms
  by (intro pixelLoop_local colorSplashStep_local) (auto simp add: colorSplashStep_frame)

text \<open>What the colour splash leaves at the three colour bytes of a pixel.\<close>

lemma colorSplash_pixel:
  assumes "colorSplash fx" and "4 * p + 3 < length d"
  shows "(colorSplashStage fx d ! (4 * p), colorSplashStage fx d ! (4 * p + 1),
          colorSplashStage fx d ! (4 * p + 2)) =
      (if hueOutside (hueOf (d ! (4 * p)) (d ! (4 * p + 1)) (d ! (4 * p + 2)))
            (targetHue fx) (hueTolerance fx)
       then (luminanceGray (d ! (4 * p)) (d ! (4 * p + 1)) (d ! (4 * p + 2)),
             luminanceGray (d ! (4 * p)) (d ! (4 * p + 1)) (d ! (4 * p + 2)),
             luminanceGray (d ! (4 * p)) (d ! (4 * p + 1)) (d ! (4 * p + 2)))
       else (d ! (4 * p), d ! (4 * p + 1), d ! (4 * p + 2)))"
proof -
  let ?out = "colorSplashStage fx d"
  let ?step = "colorSplashStep (targetHue fx) (hueTolerance fx) (4 * p) d"
  have out: "?out ! (4 * p + k) = ?step ! (4 * p + k)" if "k < 4" for k
    using assms that by (simp add: colorSplashStage_def colorSplash_loop_nth)
  have o: "?out ! (4 * p) = ?step ! (4 * p)" "?out ! (4 * p + 1) = ?step ! (4 * p + 1)"
    "?out ! (4 * p + 2) = ?step ! (4 * p + 2)"
    using out [of 0] out [of 1] out [of 2] by simp_all
  show ?thesis
    unfolding o using assms(2) by (simp add: colorSplashStep_pixel)
qed

text \<open>
  C6, as the code has it. With colour splash on, take a pixel with bytes \<open>r\<close>, \<open>g\<close>,
  \<open>b\<close>, its hue \<open>h\<close> in exact arithmetic, and the circular distance
  \<open>dist = min(|h - target|, 360 - |h - target|)\<close> from a target hue between 0 and 360.
  When target and tolerance are integers, as the sliders give them, and \<open>dist\<close> is not
  equal to the tolerance, the three colour bytes become the grey byte exactly when
  \<open>dist\<close> exceeds the tolerance, and stay as they are otherwise. For any target and
  tolerance this holds when \<open>dist\<close> and the tolerance differ by more than
  \<open>1 / 10 ^ 10\<close>. In every case the loop decides by the hue that \<open>rgbToHsl\<close> computes
  in doubles, which is within \<open>1 / 10 ^ 10\<close> of \<open>h\<close>, and the bytes become all grey or
  stay untouched. The grey byte is within \<open>1 / 2 + 1 / 10 ^ 12\<close> of
  \<open>0.2126 r + 0.7152 g + 0.0722 b\<close>. In particular with target 0 and tolerance 10 a
  pixel of hue 355 keeps its colour.
\<close>

theorem colorSplash_by_hue_distance:
  assumes "colorSplash fx" and "4 * p + 3 < length d"
    and "d ! (4 * p) \<le> 255" and "d ! (4 * p + 1) \<le> 255" and "d ! (4 * p + 2) \<le> 255"
    and "0 \<le> targetHue fx" and "targetHue fx \<le> 360"
  shows "(let r = d ! (4 * p); g = d ! (4 * p + 1); b = d ! (4 * p + 2);
              out = colorSplashStage fx d;
              pixel = (out ! (4 * p), out ! (4 * p + 1), out ! (4 * p + 2));
              gray = luminanceGray r g b;
              dist = hueDistance (hslHue r g b) (targetHue fx)
          in (targetHue fx \<in> \<int> \<and> hueTolerance fx \<in> \<int> \<and> dist \<noteq> hueTolerance fx \<longrightarrow>
                pixel = (if hueTolerance fx < dist then (gray, gray, gray) else (r, g, b)))
           \<and> (hueTolerance fx + 1 / 10 ^ 10 < dist \<longrightarrow> pixel = (gray, gray, gray))
           \<and> (dist < hueTolerance fx - 1 / 10 ^ 10 \<longrightarrow> pixel = (r, g, b))
           \<and> pixel = (if hueOutside (hueOf r g b) (targetHue fx) (hueTolerance fx)
                        then (gray, gray, gray) else (r, g, b))
           \<and> \<bar>hueOf r g b - hslHue r g b\<bar> \<le> 1 / 10 ^ 10
           \<and> \<bar>real gray - (0.2126 * real r + 0.7152 * real g + 0.0722 * real b)\<bar>
                \<le> 1 / 2 + 1 / 10 ^ 12
           \<and> (targetHue fx = 0 \<and> hueTolerance fx = 10 \<and> hslHue r g b = 355 \<longrightarrow>
                pixel = (r, g, b)))"
proof -
  define r g b where "r = d ! (4 * p)" and "g = d ! (4 * p + 1)" and "b = d ! (4 * p + 2)"
  define pixel where "pixel = (colorSplashStage fx d ! (4 * p), colorSplashStage fx d ! (4 * p + 1),
      colorSplashStage fx d ! (4 * p + 2))"
  define gray where "gray = luminanceGray r g b"
  define dist where "dist = hueDistance (hslHue r g b) (targetHue fx)"
  have bytes: "r \<le> 255" "g \<le> 255" "b \<le> 255" using assms(3-5) by (simp_all add: r_def g_def b_def)
  have rule: "pixel = (if hueOutside (hueOf r g b) (targetHue fx) (hueTolerance fx)
      then (gray, gray, gray) else (r, g, b))"
    unfolding pixel_def gray_def r_def g_def b_def by (rule colorSplash_pixel [OF assms(1,2)])
  note hue = hueOf_error_range [OF bytes]
  from hue have near: "\<bar>hueOf r g b - hslHue r g b\<bar> \<le> 2 / 10 ^ 11" by simp
  then have acc: "\<bar>hueOf r g b - hslHue r g b\<bar> \<le> 1 / 10 ^ 10" by simp
  have range: "0 \<le> hslHue r g b" "hslHue r g b \<le> 360" using hue by simp_all
  note margin = hueOutside_margin [OF near range assms(6,7), of "hueTolerance fx", folded dist_def]
  have above: "pixel = (gray, gray, gray)" if "hueTolerance fx + 1 / 10 ^ 10 < dist"
    using margin(1) [OF that] by (simp add: rule)
  have below: "pixel = (r, g, b)" if "dist < hueTolerance fx - 1 / 10 ^ 10"
    using margin(2) [OF that] by (simp add: rule)
  have sliders: "pixel = (if hueTolerance fx < dist then (gray, gray, gray) else (r, g, b))"
    if "targetHue fx \<in> \<int>" and "hueTolerance fx \<in> \<int>" and "dist \<noteq> hueTolerance fx"
  proof -
    have "1 / 255 \<le> \<bar>dist - hueTolerance fx\<bar>"
      using that unfolding dist_def by (intro hueDistance_gap bytes)
    then consider "hueTolerance fx + 1 / 10 ^ 10 < dist" | "dist < hueTolerance fx - 1 / 10 ^ 10"
      by (cases "hueTolerance fx < dist") simp_all
    then show ?thesis
    proof cases
      case 1
      then have "hueTolerance fx < dist" by simp
      then show ?thesis using above [OF 1] by simp
    next
      case 2
      then have "\<not> hueTolerance fx < dist" by simp
      then show ?thesis using below [OF 2] by simp
    qed
  qed
  have grey: "\<bar>real gray - (0.2126 * real r + 0.7152 * real g + 0.0722 * real b)\<bar>
      \<le> 1 / 2 + 1 / 10 ^ 12"
    unfolding gray_def by (rule luminanceGray_error [OF bytes])
  have wrap: "pixel = (r, g, b)"
    if "targetHue fx = 0" and "hueTolerance fx = 10" and "hslHue r g b = 355"
  proof -
    have "dist = 5" using that by (simp add: dist_def hueDistance_def)
    then show ?thesis using below that(2) by simp
  qed
  from sliders above below rule acc grey wrap show ?thesis
    unfolding Let_def r_def [symmetric] g_def [symmetric] b_def [symmetric] pixel_def [symmetric]
      gray_def [symmetric] dist_def [symmetric]
    by blast
qed

lemma luminanceGray_blue: "luminanceGray 0 0 255 = 18"
  by code_simp

text \<open>The theorem at two pixels with target 0 and tolerance 10: (24, 0, 2) of hue 355, at
  distance 5, keeps its colour; (0, 0, 255) of hue 240, at distance 120, becomes grey 18.\<close>

theorem colorSplash_by_hue_distance_witness:
  "colorSplash (defaultEffects\<lparr>colorSplash := True, targetHue := 0, hueTolerance := 10\<rparr>)
   \<and> 4 * 0 + 3 < length [24, 0, 2, 255, 0, 0, 255, 255 :: nat]
   \<and> 4 * 1 + 3 < length [24, 0, 2, 255, 0, 0, 255, 255 :: nat]
   \<and> (0::real) \<in> \<int> \<and> (10::real) \<in> \<int>
   \<and> hslHue 24 0 2 = 355 \<and> hueDistance 355 0 = 5
   \<and> hslHue 0 0 255 = 240 \<and> hueDistance 240 0 = 120
   \<and> (colorSplashStage (defaultEffects\<lparr>colorSplash := True, targetHue := 0, hueTolerance := 10\<rparr>)
         [24, 0, 2, 255, 0, 0, 255, 255] ! (4 * 0),
       colorSplashStage (defaultEffects\<lparr>colorSplash := True, targetHue := 0, hueTolerance := 10\<rparr>)
         [24, 0, 2, 255, 0, 0, 255, 255] ! (4 * 0 + 1),
       colorSplashStage (defaultEffects\<lparr>colorSplash := True, targetHue := 0, hueTolerance := 10\<rparr>)
         [24, 0, 2, 255, 0, 0, 255, 255] ! (4 * 0 + 2)) = (24, 0, 2)
   \<and> (colorSplashStage (defaultEffects\<lparr>colorSplash := True, targetHue := 0, hueTolerance := 10\<rparr>)
         [24, 0, 2, 255, 0, 0, 255, 255] ! (4 * 1),
       colorSplashStage (defaultEffects\<lparr>colorSplash := True, targetHue := 0, hueTolerance := 10\<rparr>)
         [24, 0, 2, 255, 0, 0, 255, 255] ! (4 * 1 + 1),
       colorSplashStage (defaultEffects\<lparr>colorSplash := True, targetHue := 0, hueTolerance := 10\<rparr>)
         [24, 0, 2, 255, 0, 0, 255, 255] ! (4 * 1 + 2)) = (18, 18, 18)"
proof -
  let ?fx = "defaultEffects\<lparr>colorSplash := True, targetHue := 0, hueTolerance := 10\<rparr>"
  let ?d = "[24, 0, 2, 255, 0, 0, 255, 255 :: nat]"
  have fx: "colorSplash ?fx" "targetHue ?fx = 0" "hueTolerance ?fx = 10"
    by (simp_all add: defaultEffects_def)
  have t: "0 \<le> targetHue ?fx" "targetHue ?fx \<le> 360" by (simp_all add: fx)
  have ints: "(0::real) \<in> \<int>" "(10::real) \<in> \<int>" by simp_all
  have len: "4 * 0 + 3 < length ?d" "4 * 1 + 3 < length ?d" by simp_all
  have first: "?d ! (4 * 0) = 24" "?d ! (4 * 0 + 1) = 0" "?d ! (4 * 0 + 2) = 2" by simp_all
  have second: "?d ! (4 * 1) = 0" "?d ! (4 * 1 + 1) = 0" "?d ! (4 * 1 + 2) = 255" by simp_all
  have red: "hslHue 24 0 2 = 355" "hueDistance 355 0 = 5"
    by (simp_all add: hslHue_def hueDistance_def)
  have blue: "hslHue 0 0 255 = 240" "hueDistance 240 0 = 120"
    by (simp_all add: hslHue_def hueDistance_def)
  have kept: "(colorSplashStage ?fx ?d ! (4 * 0), colorSplashStage ?fx ?d ! (4 * 0 + 1),
      colorSplashStage ?fx ?d ! (4 * 0 + 2)) = (24, 0, 2)"
    using colorSplash_by_hue_distance [of ?fx 0 ?d, unfolded Let_def first fx(2,3) red,
        OF fx(1) len(1), THEN conjunct1] ints
    by simp
  have grey: "(colorSplashStage ?fx ?d ! (4 * 1), colorSplashStage ?fx ?d ! (4 * 1 + 1),
      colorSplashStage ?fx ?d ! (4 * 1 + 2)) = (18, 18, 18)"
    using colorSplash_by_hue_distance [of ?fx 1 ?d, unfolded Let_def second fx(2,3) blue
        luminanceGray_blue, OF fx(1) len(2), THEN conjunct1] ints
    by simp
  from fx(1) len ints red blue kept grey show ?thesis by blast
qed

text \<open>
  C6 as stated fails where the distance equals the tolerance. The pixel (38, 33, 32) has
  hue 10 exactly, at distance 10 from target 0, which does not exceed the tolerance 10:
  the claim keeps its colour. \<open>rgbToHsl\<close> computes \<open>10.000000000000036\<close> in doubles,
  and the pixel becomes grey 34.
\<close>

theorem colorSplash_tie_is_greyed:
  "hslHue 38 33 32 = 10 \<and> hueDistance 10 0 = 10
   \<and> hueOf 38 33 32 = 10 + 5 / 2 ^ 47
   \<and> colorSplashStage (defaultEffects\<lparr>colorSplash := True, targetHue := 0, hueTolerance := 10\<rparr>)
        [38, 33, 32, 255] = [34, 34, 34, 255]"
proof -
  have "hslHue 38 33 32 = 10 \<and> hueDistance 10 0 = 10"
    by (simp add: hslHue_def hueDistance_def)
  moreover have "hueOf 38 33 32 = 10 + 5 / 2 ^ 47" by code_simp
  moreover have "colorSplashStage
      (defaultEffects\<lparr>colorSplash := True, targetHue := 0, hueTolerance := 10\<rparr>)
      [38, 33, 32, 255] = [34, 34, 34, 255]" by code_simp
  ultimately show ?thesis by blast
qed

text \<open>The weighted sum of (0, 14, 76) is 15.5 exactly; the doubles give
  \<open>15.499999999999998\<close>, and the byte stored is 15.\<close>

lemma luminanceGray_example: "luminanceGray 0 14 76 = 15"
  by code_simp

lemma glitchLoop_throws:
  "width = 0 \<or> height div 20 = 0 \<Longrightarrow> 0 < n \<Longrightarrow>
     glitchLoop br fx random width height n st = Inl IndexSizeError"
  by (cases n) (auto simp add: glitchSlice_def Let_def)

lemma glitchLoop_returns:
  "\<not> (width = 0 \<or> height div 20 = 0) \<Longrightarrow>
     \<exists>st'. glitchLoop br fx random width height n st = Inr st' \<and> imgData st' = imgData st"
proof (induction n arbitrary: st)
  case 0
  then show ?case by simp
next
  case (Suc n)
  let ?st = "st\<lparr>bitmap := putImageData br
        (getImageData br (bitmap st) 0 \<lfloor>random (calls st) * real height\<rfloor> width (height div 20))
        \<lfloor>(random (calls st + 1) - 0.5) * glitchIntensity fx * 50\<rfloor>
        \<lfloor>random (calls st) * real height\<rfloor> (bitmap st),
      calls := calls st + 2\<rparr>"
  have "glitchSlice br fx random width height st = Inr ?st"
    using Suc.prems by (simp add: glitchSlice_def Let_def)
  then show ?case using Suc.IH [OF Suc.prems, of ?st] by simp
qed

lemma glitchEffect_cases:
  "glitchEffect br fx random width height st =
     (if glitchThrows fx width height then Inl IndexSizeError
      else glitchEffect br fx random width height st)
   \<and> (\<not> glitchThrows fx width height \<longrightarrow>
        (\<exists>st'. glitchEffect br fx random width height st = Inr st' \<and> imgData st' = imgData st))"
proof (cases "glitchThrows fx width height")
  case True
  then show ?thesis
    by (simp add: glitchEffect_def glitchThrows_def Let_def glitchLoop_throws)
next
  case False
  show ?thesis
  proof (cases "glitchIntensity fx > 0 \<and> 0 < nat \<lfloor>glitchIntensity fx * 5\<rfloor>")
    case True
    with False have "\<not> (width = 0 \<or> height div 20 = 0)" by (simp add: glitchThrows_def)
    from glitchLoop_returns [OF this] show ?thesis
      using False True by (simp add: glitchEffect_def Let_def)
  next
    case False
    then have "glitchEffect br fx random width height st = Inr st"
      by (auto simp add: glitchEffect_def Let_def)
    then show ?thesis using \<open>\<not> glitchThrows fx width height\<close> by simp
  qed
qed

lemma imgData_noiseEffect:
  "imgData (noiseEffect fx random \<lparr>bitmap = b, transform = t, imgData = source, calls = 0\<rparr>)
     = noiseStage fx random source"
  by (simp add: noiseEffect_def noiseStage_def)

lemma imgData_kaleidoscopeEffect [simp]:
  "imgData (kaleidoscopeEffect br fx width height st) = imgData st"
  by (simp add: kaleidoscopeEffect_def Let_def)

lemma imgData_mirrorEffect [simp]:
  "imgData (mirrorEffect br fx width height st) = imgData st"
  by (simp add: mirrorEffect_def Let_def)

lemma applyAdvancedEffects_eq:
  "applyAdvancedEffects br fx random width height source =
     (if glitchThrows fx width height then Inl IndexSizeError
      else Inr (dataEffects fx random source))"
proof -
  let ?st0 = "\<lparr>bitmap = source, transform = [], imgData = source, calls = 0\<rparr>"
  let ?st = "colorSplashEffect fx (mirrorEffect br fx width height
      (kaleidoscopeEffect br fx width height (noiseEffect fx random ?st0)))"
  have d: "imgData ?st = colorSplashStage fx (noiseStage fx random source)"
    by (simp add: colorSplashEffect_def imgData_noiseEffect)
  show ?thesis
  proof (cases "glitchThrows fx width height")
    case True
    then have "glitchEffect br fx random width height ?st = Inl IndexSizeError"
      using glitchEffect_cases [of br fx random width height ?st] by simp
    then show ?thesis using True by (simp add: applyAdvancedEffects_def Let_def)
  next
    case False
    then obtain st' where st': "glitchEffect br fx random width height ?st = Inr st'"
      "imgData st' = imgData ?st"
      using glitchEffect_cases [of br fx random width height ?st] by blast
    then show ?thesis
      using False d by (simp add: applyAdvancedEffects_def Let_def tailEffects_def dataEffects_def)
  qed
qed

text \<open>
  C1, as the code has it. With the noise effect off, two runs on the same buffer with
  equal settings give the same result whatever \<open>Math.random\<close> returns in each: the
  draws of the glitch effect displace slices of the canvas only, and the canvas is
  overwritten at the end.
\<close>

theorem noise_free_runs_agree:
  assumes "noiseAmount fx \<le> 0"
  shows "applyAdvancedEffects br fx random width height source =
         applyAdvancedEffects br fx random' width height source"
  using assms by (simp add: applyAdvancedEffects_eq dataEffects_def noiseStage_def)

text \<open>
  C1 as stated fails: with noise 100 on one grey pixel of value 100, a run whose draw is
  0 gives 50 and a run whose draw is 0.75 gives 125.
\<close>

theorem noise_runs_differ:
  "applyAdvancedEffects idleBrowser (defaultEffects\<lparr>noiseAmount := 100\<rparr>) (\<lambda>k. 0) 1 1
      [100, 100, 100, 255]
   \<noteq> applyAdvancedEffects idleBrowser (defaultEffects\<lparr>noiseAmount := 100\<rparr>) (\<lambda>k. 3 / 4) 1 1
      [100, 100, 100, 255]"
proof -
  let ?fx = "defaultEffects\<lparr>noiseAmount := 100\<rparr>"
  have a: "noiseStage ?fx (\<lambda>k. 0) [100, 100, 100, 255] = [50, 50, 50, 255]"
    by (simp add: noiseStage_def defaultEffects_def pixelLoop_def pixelOffsets_def noiseStep_def
        toUint8Clamped_def)
  have b: "noiseStage ?fx (\<lambda>k. 3 / 4) [100, 100, 100, 255] = [125, 125, 125, 255]"
    by (simp add: noiseStage_def defaultEffects_def pixelLoop_def pixelOffsets_def noiseStep_def
        toUint8Clamped_def)
  have rest: "splitToningStage ?fx (colorBalanceStage ?fx (gammaStage ?fx (colorSplashStage ?fx d))) = d"
    for d
    by (simp add: splitToningStage_def colorBalanceStage_def gammaStage_def colorSplashStage_def
        defaultEffects_def)
  have "\<not> glitchThrows ?fx 1 1" by (simp add: glitchThrows_def defaultEffects_def)
  then show ?thesis
    by (simp add: applyAdvancedEffects_eq dataEffects_def a b rest)
qed

text \<open>The theorem with the glitch effect on, on a canvas of 1 by 20 pixels, for two
  different sequences of draws.\<close>

theorem noise_free_runs_agree_witness:
  "noiseAmount (defaultEffects\<lparr>glitchIntensity := 1\<rparr>) \<le> 0
   \<and> applyAdvancedEffects idleBrowser (defaultEffects\<lparr>glitchIntensity := 1\<rparr>) (\<lambda>k. 0) 1 20
        (solid 20 10 20 30 255)
     = applyAdvancedEffects idleBrowser (defaultEffects\<lparr>glitchIntensity := 1\<rparr>) (\<lambda>k. 1 / 2) 1 20
        (solid 20 10 20 30 255)"
proof -
  have "noiseAmount (defaultEffects\<lparr>glitchIntensity := 1\<rparr>) \<le> 0"
    by (simp add: defaultEffects_def)
  from this noise_free_runs_agree [OF this] show ?thesis by blast
qed

text \<open>The two examples for the canvas effects.\<close>

lemma length_twoColumns: "length twoColumns = 4 * (2 * 20)"
  by code_simp

lemma splash_red_blue:
  "colorSplashStage (defaultEffects\<lparr>kaleidoscope := 1, colorSplash := True\<rparr>)
     [255, 0, 0, 255, 0, 0, 255, 255] = [255, 0, 0, 255, 18, 18, 18, 255]"
  by code_simp

text \<open>
  C4 fails on the code. The result is the five loops over \<open>data\<close> in the order noise,
  colour splash, gamma, colour balance, split toning, whatever the browser draws:
  kaleidoscope, mirror and glitch work on the canvas, \<open>data\<close> was read before them, and
  the final \<open>putImageData\<close> overwrites the canvas with \<open>data\<close>. With the kaleidoscope
  and the glitch sliders both at 1, on a canvas of 2 by 20 pixels with a red and a blue
  column, the result is the input, whatever is drawn and whatever \<open>Math.random\<close>
  returns. With the kaleidoscope at 1 and the colour splash on (target 0, tolerance 20),
  on a canvas of a red and a blue pixel, the result is the colour splash of the input:
  red stays, blue becomes grey 18.
\<close>

theorem canvas_effects_never_reach_output:
  "applyAdvancedEffects br fx random width height source =
     (if glitchThrows fx width height then Inl IndexSizeError
      else Inr (dataEffects fx random source))
   \<and> applyAdvancedEffects br (defaultEffects\<lparr>kaleidoscope := 1, glitchIntensity := 1\<rparr>) random 2 20
        twoColumns = Inr twoColumns
   \<and> applyAdvancedEffects br (defaultEffects\<lparr>kaleidoscope := 1, colorSplash := True\<rparr>) random 2 1
        [255, 0, 0, 255, 0, 0, 255, 255] = Inr [255, 0, 0, 255, 18, 18, 18, 255]"
proof -
  let ?kg = "defaultEffects\<lparr>kaleidoscope := 1, glitchIntensity := 1\<rparr>"
  let ?ks = "defaultEffects\<lparr>kaleidoscope := 1, colorSplash := True\<rparr>"
  have "\<not> glitchThrows ?kg 2 20"
    by (simp add: glitchThrows_def defaultEffects_def)
  moreover have "dataEffects ?kg random d = d" for d
    by (simp add: dataEffects_def splitToningStage_def colorBalanceStage_def gammaStage_def
        colorSplashStage_def noiseStage_def defaultEffects_def)
  moreover have "\<not> glitchThrows ?ks 2 1"
    by (simp add: glitchThrows_def defaultEffects_def)
  moreover have "dataEffects ?ks random d = colorSplashStage ?ks d" for d
    by (simp add: dataEffects_def splitToningStage_def colorBalanceStage_def gammaStage_def
        noiseStage_def defaultEffects_def)
  ultimately show ?thesis by (simp add: applyAdvancedEffects_eq splash_red_blue)
qed

section \<open>Preview against conversion\<close>

text \<open>The size of the pixelation canvas is rounded as doubles round: for a width of 49
  and \<open>pixelate = 49\<close> the product \<open>49 * (1 / 49)\<close> is \<open>0.9999999999999999\<close>, the
  canvas gets width 0, and \<open>drawImage\<close> throws.\<close>

lemma pixelation_example:
  "pixelation p (neutralOptions\<lparr>pixelate := 49\<rparr>) 49 49 canvas = Inl InvalidStateError"
  by code_simp

lemma hex_black: "hexToRgb ''#000000'' = \<lparr>rgb_r = 0, rgb_g = 0, rgb_b = 0\<rparr>"
  by (simp add: hexToRgb_def hexDigit_def)

lemma filters_example:
  "filters invertedBlackTint =
     [Brightness 100, Contrast 100, Blur 0, Saturate 100, Sepia 0, HueRotate 0, Invert 100]"
  by (simp add: filters_def invertedBlackTint_def neutralOptions_def)

lemma prefix_example:
  "geometric examplePainter invertedBlackTint whitePixel = [255, 255, 255, 255]"
  "pixelation examplePainter invertedBlackTint w h c = Inr c"
  "embossBlock invertedBlackTint w c = c"
  by (simp_all add: geometric_def pixelation_def embossBlock_def examplePainter_def whitePixel_def
      invertedBlackTint_def neutralOptions_def Let_def)

lemma painter_example:
  "paintFiltered examplePainter [Brightness 100, Contrast 100, Blur 0, Saturate 100, Sepia 0,
      HueRotate 0, Invert 100] [255, 255, 255, 255] = [0, 0, 0, 255]"
  "paintFiltered examplePainter [Brightness 100, Contrast 100, Blur 0, Saturate 100, Sepia 0,
      HueRotate 0, Invert 100] [0, 0, 0, 255] = [255, 255, 255, 255]"
  "fillRect examplePainter [Brightness 100, Contrast 100, Blur 0, Saturate 100, Sepia 0,
      HueRotate 0, Invert 100] ''#000000'' 1 [0, 0, 0, 255] = [0, 0, 0, 255]"
  "fillRect examplePainter [] ''#000000'' 1 [255, 255, 255, 255] = [0, 0, 0, 255]"
  by (simp_all add: examplePainter_def invertPixel_def multiplyPixel_def hex_black invertRgb_def
      toUint8Clamped_def)

text \<open>
  C3 fails on the code. For every painter, the conversion draws the canvas through the
  filter list and fills the tint afterwards; the preview fills the tint first and filters
  the tinted canvas. On a white pixel with \<open>invert\<close> on and a black tint at 100 percent the conversion gives
  black (white inverted is black, and it stays black under the tint) and the preview gives
  white (white tinted black, then inverted).
\<close>

theorem preview_differs_from_conversion:
  "(pixelation p opts (imgWidth img) (imgHeight img) (geometric p opts img) = Inr c
      \<and> tintColor opts \<noteq> ''none'' \<longrightarrow>
    processCanvas p opts img =
      Inr (fillRect p (filters opts) (tintColor opts) (tintIntensity opts / 100)
             (paintFiltered p (filters opts) (embossBlock opts (imgWidth img) c)))
    \<and> generatePreview p opts img =
      Inr (paintFiltered p (filters opts)
             (fillRect p [] (tintColor opts) (tintIntensity opts / 100)
                (embossBlock opts (imgWidth img) c))))
   \<and> processCanvas examplePainter invertedBlackTint whitePixel = Inr [0, 0, 0, 255]
   \<and> generatePreview examplePainter invertedBlackTint whitePixel = Inr [255, 255, 255, 255]"
proof -
  have tint: "tintColor invertedBlackTint = ''#000000''" "tintIntensity invertedBlackTint = 100"
    by (simp_all add: invertedBlackTint_def)
  have a: "processCanvas examplePainter invertedBlackTint whitePixel = Inr [0, 0, 0, 255]"
    by (simp add: processCanvas_def prefix_example tint filters_example painter_example)
  have b: "generatePreview examplePainter invertedBlackTint whitePixel = Inr [255, 255, 255, 255]"
    by (simp add: generatePreview_def prefix_example tint filters_example painter_example)
  have order: "pixelation p opts (imgWidth img) (imgHeight img) (geometric p opts img) = Inr c
      \<and> tintColor opts \<noteq> ''none'' \<longrightarrow>
    processCanvas p opts img =
      Inr (fillRect p (filters opts) (tintColor opts) (tintIntensity opts / 100)
             (paintFiltered p (filters opts) (embossBlock opts (imgWidth img) c)))
    \<and> generatePreview p opts img =
      Inr (paintFiltered p (filters opts)
             (fillRect p [] (tintColor opts) (tintIntensity opts / 100)
                (embossBlock opts (imgWidth img) c)))"
    by (simp add: processCanvas_def generatePreview_def Let_def)
  from order a b show ?thesis by blast
qed

text \<open>The order of the last two stages, at the example.\<close>

theorem preview_differs_from_conversion_witness:
  "pixelation examplePainter invertedBlackTint (imgWidth whitePixel) (imgHeight whitePixel)
      (geometric examplePainter invertedBlackTint whitePixel) = Inr [255, 255, 255, 255]
   \<and> tintColor invertedBlackTint \<noteq> ''none''
   \<and> processCanvas examplePainter invertedBlackTint whitePixel =
      Inr (fillRect examplePainter (filters invertedBlackTint) (tintColor invertedBlackTint)
             (tintIntensity invertedBlackTint / 100)
             (paintFiltered examplePainter (filters invertedBlackTint)
                (embossBlock invertedBlackTint (imgWidth whitePixel) [255, 255, 255, 255])))
   \<and> generatePreview examplePainter invertedBlackTint whitePixel =
      Inr (paintFiltered examplePainter (filters invertedBlackTint)
             (fillRect examplePainter [] (tintColor invertedBlackTint)
                (tintIntensity invertedBlackTint / 100)
                (embossBlock invertedBlackTint (imgWidth whitePixel) [255, 255, 255, 255])))"
proof -
  have pre: "pixelation examplePainter invertedBlackTint (imgWidth whitePixel) (imgHeight whitePixel)
      (geometric examplePainter invertedBlackTint whitePixel) = Inr [255, 255, 255, 255]"
    by (simp add: prefix_example)
  have tint: "tintColor invertedBlackTint \<noteq> ''none''"
    by (simp add: invertedBlackTint_def)
  from preview_differs_from_conversion
    [of examplePainter invertedBlackTint whitePixel "[255, 255, 255, 255]"] pre tint
  show ?thesis by blast
qed

section \<open>The batch\<close>










end
